theory Spec2Isabelle
  imports Complex_Main "HOL-Library.Product_Lexorder"
begin

section \<open>Numeric values\<close>

text \<open>
  The arrays of \<^verbatim>\<open>convert.py\<close> hold float64 values. A value is modelled as a real
  number or one of the three special values of IEEE 754. The sum, product or quotient of
  two finite values is the exact real result, unless it overflows: a result that float64
  arithmetic rounds to an infinity (one of magnitude \<open>2^1024 - 2^970\<close> or more) is
  that infinity. The rounding of a result to 53 bits, the underflow of a tiny result to
  zero and the sign of a zero are not modelled: a zero is always the positive zero. The
  special values follow IEEE 754 (as numpy does, which warns and goes on where Python
  itself would raise): \<open>0/0\<close> and \<open>inf - inf\<close> are NaN, a nonzero value divided by
  zero is an infinity, and NaN is unordered.
\<close>

datatype fl = Fin real | PInf | NInf | NaN

text \<open>The largest float64, and the least magnitude that rounds to an infinity.\<close>

definition max_float :: real where
  "max_float = (2 - 1 / 2 ^ 52) * 2 ^ 1023"

definition overflow_threshold :: real where
  "overflow_threshold = (2 - 1 / 2 ^ 53) * 2 ^ 1023"

definition overflow :: "real \<Rightarrow> fl" where
  "overflow r =
     (if overflow_threshold \<le> r then PInf
      else if r \<le> - overflow_threshold then NInf
      else Fin r)"

text \<open>A float64 value: a special value, or a number up to the largest float64.\<close>

fun float64 :: "fl \<Rightarrow> bool" where
  "float64 (Fin a) = (\<bar>a\<bar> \<le> max_float)"
| "float64 _ = True"

fun isnan :: "fl \<Rightarrow> bool" where
  "isnan NaN = True"
| "isnan _ = False"

fun isfinite :: "fl \<Rightarrow> bool" where
  "isfinite (Fin _) = True"
| "isfinite _ = False"

fun fl_less :: "fl \<Rightarrow> fl \<Rightarrow> bool" where
  "fl_less (Fin a) (Fin b) = (a < b)"
| "fl_less (Fin _) PInf = True"
| "fl_less NInf (Fin _) = True"
| "fl_less NInf PInf = True"
| "fl_less _ _ = False"

fun fl_le :: "fl \<Rightarrow> fl \<Rightarrow> bool" where
  "fl_le (Fin a) (Fin b) = (a \<le> b)"
| "fl_le NaN _ = False"
| "fl_le _ NaN = False"
| "fl_le NInf _ = True"
| "fl_le _ PInf = True"
| "fl_le _ _ = False"

fun fl_eq :: "fl \<Rightarrow> fl \<Rightarrow> bool" where
  "fl_eq NaN _ = False"
| "fl_eq _ NaN = False"
| "fl_eq a b = (a = b)"

fun fl_neg :: "fl \<Rightarrow> fl" where
  "fl_neg (Fin a) = Fin (- a)"
| "fl_neg PInf = NInf"
| "fl_neg NInf = PInf"
| "fl_neg NaN = NaN"

fun fl_add :: "fl \<Rightarrow> fl \<Rightarrow> fl" where
  "fl_add (Fin a) (Fin b) = overflow (a + b)"
| "fl_add NaN _ = NaN"
| "fl_add _ NaN = NaN"
| "fl_add PInf NInf = NaN"
| "fl_add NInf PInf = NaN"
| "fl_add PInf _ = PInf"
| "fl_add _ PInf = PInf"
| "fl_add NInf _ = NInf"
| "fl_add _ NInf = NInf"

definition fl_sub :: "fl \<Rightarrow> fl \<Rightarrow> fl" where
  "fl_sub a b = fl_add a (fl_neg b)"

text \<open>An infinity times or divided by a finite value: the sign follows the finite value.\<close>

fun inf_signed :: "bool \<Rightarrow> fl" where
  "inf_signed True = PInf"
| "inf_signed False = NInf"

fun fl_mul :: "fl \<Rightarrow> fl \<Rightarrow> fl" where
  "fl_mul (Fin a) (Fin b) = overflow (a * b)"
| "fl_mul NaN _ = NaN"
| "fl_mul _ NaN = NaN"
| "fl_mul PInf (Fin b) = (if b = 0 then NaN else inf_signed (0 < b))"
| "fl_mul NInf (Fin b) = (if b = 0 then NaN else inf_signed (b < 0))"
| "fl_mul (Fin a) PInf = (if a = 0 then NaN else inf_signed (0 < a))"
| "fl_mul (Fin a) NInf = (if a = 0 then NaN else inf_signed (a < 0))"
| "fl_mul PInf PInf = PInf"
| "fl_mul NInf NInf = PInf"
| "fl_mul PInf NInf = NInf"
| "fl_mul NInf PInf = NInf"

fun fl_div :: "fl \<Rightarrow> fl \<Rightarrow> fl" where
  "fl_div (Fin a) (Fin b) =
     (if b \<noteq> 0 then overflow (a / b) else if a = 0 then NaN else inf_signed (0 < a))"
| "fl_div NaN _ = NaN"
| "fl_div _ NaN = NaN"
| "fl_div (Fin _) _ = Fin 0"
| "fl_div PInf (Fin b) = inf_signed (0 \<le> b)"
| "fl_div NInf (Fin b) = inf_signed (b < 0)"
| "fl_div _ _ = NaN"

fun fl_sqrt :: "fl \<Rightarrow> fl" where
  "fl_sqrt (Fin a) = (if 0 \<le> a then Fin (sqrt a) else NaN)"
| "fl_sqrt PInf = PInf"
| "fl_sqrt _ = NaN"

fun fl_log10 :: "fl \<Rightarrow> fl" where
  "fl_log10 (Fin a) = (if 0 < a then Fin (log 10 a) else if a = 0 then NInf else NaN)"
| "fl_log10 PInf = PInf"
| "fl_log10 _ = NaN"

fun fl_arcsinh :: "fl \<Rightarrow> fl" where
  "fl_arcsinh (Fin a) = Fin (arsinh a)"
| "fl_arcsinh x = x"

text \<open>
  \<^verbatim>\<open>np.maximum\<close>, \<^verbatim>\<open>np.minimum\<close> and \<^verbatim>\<open>np.clip\<close>: a NaN on either side
  comes out as NaN. \<^verbatim>\<open>np.clip(x, lo, hi)\<close> is the minimum with \<open>hi\<close> of the maximum
  of \<open>x\<close> and \<open>lo\<close>.
\<close>

definition np_maximum :: "fl \<Rightarrow> fl \<Rightarrow> fl" where
  "np_maximum a b = (if isnan a then a else if fl_less b a then a else b)"

definition np_minimum :: "fl \<Rightarrow> fl \<Rightarrow> fl" where
  "np_minimum a b = (if isnan a then a else if fl_less a b then a else b)"

definition clip :: "fl \<Rightarrow> fl \<Rightarrow> fl \<Rightarrow> fl" where
  "clip x lo hi = np_minimum (np_maximum x lo) hi"

text \<open>\<^verbatim>\<open>np.fmin\<close> and \<^verbatim>\<open>np.fmax\<close>: a NaN is ignored when the other side is a number.\<close>

definition np_fmin :: "fl \<Rightarrow> fl \<Rightarrow> fl" where
  "np_fmin a b = (if isnan b then a else if isnan a then b else if fl_less b a then b else a)"

definition np_fmax :: "fl \<Rightarrow> fl \<Rightarrow> fl" where
  "np_fmax a b = (if isnan b then a else if isnan a then b else if fl_less a b then b else a)"

section \<open>Errors and arrays\<close>

text \<open>
  The exceptions that reach the caller of \<^verbatim>\<open>Processing\<close>, with their messages (for a
  \<open>TypeError\<close> of a call: the keyword that could not be bound). \<open>IllTyped\<close> marks an
  argument of a kind that the docstrings exclude (a tuple where a number is expected, or
  the reverse); what Python does with it is outside this model.
\<close>

datatype error =
    ValueError string
  | IndexError string
  | TypeError string
  | ZeroDivisionError string
  | IllTyped string

text \<open>
  An \<^verbatim>\<open>np.ndarray\<close> of floats: its shape and its elements in row-major order (what
  \<^verbatim>\<open>flatten()\<close> returns).
\<close>

record ndarray =
  shape :: "nat list"
  elems :: "fl list"

definition ndim :: "ndarray \<Rightarrow> nat" where
  "ndim a = length (shape a)"

definition wf_array :: "ndarray \<Rightarrow> bool" where
  "wf_array a = (length (elems a) = prod_list (shape a))"

definition map_elems :: "(fl \<Rightarrow> fl) \<Rightarrow> ndarray \<Rightarrow> ndarray" where
  "map_elems f a = a\<lparr>elems := map f (elems a)\<rparr>"

text \<open>\<^verbatim>\<open>data[np.isfinite(data)]\<close>: the finite entries, as a one-dimensional array.\<close>

definition valid_data :: "ndarray \<Rightarrow> fl list" where
  "valid_data a = filter isfinite (elems a)"

text \<open>
  \<^verbatim>\<open>np.nanmin\<close> and \<^verbatim>\<open>np.nanmax\<close> reduce with \<^verbatim>\<open>np.fmin\<close> and \<^verbatim>\<open>np.fmax\<close>;
  an empty array has nothing to reduce and raises ValueError; an array of NaN only gives
  NaN (with a warning, which is not an exception).
\<close>

definition zero_size :: "string \<Rightarrow> error" where
  "zero_size ufunc =
     ValueError (''zero-size array to reduction operation '' @ ufunc @ '' which has no identity'')"

fun nanmin :: "fl list \<Rightarrow> error + fl" where
  "nanmin [] = Inl (zero_size ''fmin'')"
| "nanmin (x # xs) = Inr (foldl np_fmin x xs)"

fun nanmax :: "fl list \<Rightarrow> error + fl" where
  "nanmax [] = Inl (zero_size ''fmax'')"
| "nanmax (x # xs) = Inr (foldl np_fmax x xs)"

text \<open>An exception ends the computation: the rest runs only on a value.\<close>

definition and_then :: "error + 'a \<Rightarrow> ('a \<Rightarrow> error + 'b) \<Rightarrow> error + 'b" where
  "and_then r f = (case r of Inl e \<Rightarrow> Inl e | Inr v \<Rightarrow> f v)"

section \<open>The scaling functions\<close>

text \<open>
  \<^verbatim>\<open>linear_scaling\<close>, \<^verbatim>\<open>log_scaling\<close> and \<^verbatim>\<open>asinh_scaling\<close> start with the same
  lines: a bound that is \<^verbatim>\<open>None\<close> becomes the minimum (maximum) of the finite entries, a
  bound that is given is kept.
\<close>

definition extrema_range :: "ndarray \<Rightarrow> fl option \<Rightarrow> fl option \<Rightarrow> error + fl \<times> fl" where
  "extrema_range data scale_min scale_max =
     (let valid = valid_data data in
      and_then (case scale_min of None \<Rightarrow> nanmin valid | Some v \<Rightarrow> Inr v) (\<lambda>lo.
      and_then (case scale_max of None \<Rightarrow> nanmax valid | Some v \<Rightarrow> Inr v) (\<lambda>hi.
      Inr (lo, hi))))"

definition linear_scaling :: "ndarray \<Rightarrow> fl option \<Rightarrow> fl option \<Rightarrow> error + ndarray" where
  "linear_scaling data scale_min scale_max =
     and_then (extrema_range data scale_min scale_max) (\<lambda>(lo, hi).
       Inr (map_elems (\<lambda>x. clip (fl_div (fl_sub x lo) (fl_sub hi lo)) (Fin 0) (Fin 1)) data))"

definition log_scaling :: "ndarray \<Rightarrow> fl option \<Rightarrow> fl option \<Rightarrow> error + ndarray" where
  "log_scaling data scale_min scale_max =
     and_then (extrema_range data scale_min scale_max) (\<lambda>(lo, hi).
       Inr (map_elems
         (\<lambda>x. fl_div (fl_log10 (fl_add (fl_sub (clip x lo hi) lo) (Fin 1)))
                      (fl_log10 (fl_add (fl_sub hi lo) (Fin 1)))) data))"

text \<open>
  \<^verbatim>\<open>asinh_scaling\<close> first turns an input that is not a float or integer array into a
  float64 array; the arrays of this model are float arrays already.

  \<^verbatim>\<open>(scale_max - scale_min) / non_linear\<close> divides two scalars. A bound that was
  passed and \<^verbatim>\<open>non_linear\<close> are Python floats, a bound taken from the data is a numpy
  scalar. When both bounds were passed the division is Python's, which raises
  ZeroDivisionError for a zero divisor; with a numpy scalar on the left numpy divides, and a
  division by zero gives an infinity or NaN. The second division has the array on its left
  and is numpy's.
\<close>

definition asinh_scaling :: "ndarray \<Rightarrow> fl option \<Rightarrow> fl option \<Rightarrow> fl \<Rightarrow> error + ndarray" where
  "asinh_scaling data scale_min scale_max non_linear =
     and_then (extrema_range data scale_min scale_max) (\<lambda>(lo, hi).
       if scale_min \<noteq> None \<and> scale_max \<noteq> None \<and> non_linear = Fin 0
       then Inl (ZeroDivisionError ''float division by zero'')
       else
         let factor = fl_arcsinh (fl_div (fl_sub hi lo) non_linear) in
         Inr (map_elems (\<lambda>x. fl_div (fl_arcsinh (fl_div (fl_sub x lo) non_linear)) factor) data))"

subsection \<open>Percentiles\<close>

text \<open>
  \<^verbatim>\<open>np.percentile\<close> with its default method (linear): the values are sorted, NaN last;
  the percentile \<open>q\<close> of \<open>n\<close> values sits at the index \<open>q/100 * (n - 1)\<close>, between
  the two neighbouring values. At the last index both neighbours are the last value (numpy
  stores the index -1 for both, and the weight is taken from it). A percentile outside
  \<open>[0, 100]\<close> raises ValueError; on an empty array reading the last value raises
  IndexError (numpy 1.22 and later).
\<close>

fun fl_key :: "fl \<Rightarrow> nat \<times> real" where
  "fl_key NInf = (0, 0)"
| "fl_key (Fin a) = (1, a)"
| "fl_key PInf = (2, 0)"
| "fl_key NaN = (3, 0)"

definition lerp :: "fl \<Rightarrow> fl \<Rightarrow> real \<Rightarrow> fl" where
  "lerp a b t =
     (if 1 / 2 \<le> t then fl_sub b (fl_mul (fl_sub b a) (Fin (1 - t)))
      else fl_add a (fl_mul (fl_sub b a) (Fin t)))"

definition quantile_sorted :: "fl list \<Rightarrow> real \<Rightarrow> fl" where
  "quantile_sorted s q =
     (let n = length s; v = q / 100 * (real n - 1) in
      if isnan (last s) then NaN
      else if real n - 1 \<le> v then lerp (last s) (last s) (v + 1)
      else let i = nat \<lfloor>v\<rfloor> in lerp (s ! i) (s ! (i + 1)) (v - real i))"

definition percentile :: "fl list \<Rightarrow> real \<times> real \<Rightarrow> error + fl \<times> fl" where
  "percentile xs qs =
     (case qs of (q1, q2) \<Rightarrow>
        if \<not> (0 \<le> q1 \<and> q1 \<le> 100 \<and> 0 \<le> q2 \<and> q2 \<le> 100)
        then Inl (ValueError ''Percentiles must be in the range [0, 100]'')
        else if xs = [] then Inl (IndexError ''index -1 is out of bounds for axis 0 with size 0'')
        else let s = sort_key fl_key xs in Inr (quantile_sorted s q1, quantile_sorted s q2))"

text \<open>
  The first lines of \<^verbatim>\<open>sqrt_scaling\<close>: the percentiles are computed when a bound is
  missing, and only a missing bound takes its percentile.
\<close>

definition percentile_range ::
  "ndarray \<Rightarrow> fl option \<Rightarrow> fl option \<Rightarrow> real \<times> real \<Rightarrow> error + fl \<times> fl" where
  "percentile_range data scale_min scale_max percentiles =
     (let valid = valid_data data in
      case (scale_min, scale_max) of
        (Some lo, Some hi) \<Rightarrow> Inr (lo, hi)
      | _ \<Rightarrow> and_then (percentile valid percentiles) (\<lambda>(p_low, p_high).
               Inr (case scale_min of None \<Rightarrow> p_low | Some v \<Rightarrow> v,
                    case scale_max of None \<Rightarrow> p_high | Some v \<Rightarrow> v)))"

definition sqrt_scaling ::
  "ndarray \<Rightarrow> fl option \<Rightarrow> fl option \<Rightarrow> real \<times> real \<Rightarrow> error + ndarray" where
  "sqrt_scaling data scale_min scale_max percentiles =
     and_then (percentile_range data scale_min scale_max percentiles) (\<lambda>(lo, hi).
       Inr (map_elems
         (\<lambda>x. clip (fl_div (fl_sqrt (fl_sub (clip x lo hi) lo)) (fl_sqrt (fl_sub hi lo)))
                    (Fin 0) (Fin 1)) data))"

subsection \<open>Histogram equalization\<close>

text \<open>
  \<^verbatim>\<open>np.histogram\<close> with explicit bin edges: bin \<open>i\<close> counts the entries from edge
  \<open>i\<close> up to, not including, edge \<open>i + 1\<close>; the last bin includes its right edge.
  NaN and entries outside the edges are counted nowhere.
\<close>

definition arange :: "nat \<Rightarrow> real list" where
  "arange n = map real [0..<n]"

definition in_bin :: "real list \<Rightarrow> nat \<Rightarrow> fl \<Rightarrow> bool" where
  "in_bin edges i x =
     (fl_le (Fin (edges ! i)) x \<and>
      (if i + 2 = length edges then fl_le x (Fin (edges ! (i + 1)))
       else fl_less x (Fin (edges ! (i + 1)))))"

definition histogram :: "fl list \<Rightarrow> real list \<Rightarrow> nat list" where
  "histogram xs edges = map (\<lambda>i. length (filter (in_bin edges i) xs)) [0..<length edges - 1]"

fun cumsum_from :: "nat \<Rightarrow> nat list \<Rightarrow> nat list" where
  "cumsum_from acc [] = []"
| "cumsum_from acc (x # xs) = (acc + x) # cumsum_from (acc + x) xs"

definition cumsum :: "nat list \<Rightarrow> nat list" where
  "cumsum xs = cumsum_from 0 xs"

text \<open>The maximum of a list of counts (the lists here have 256 entries).\<close>

definition max_count :: "nat list \<Rightarrow> nat" where
  "max_count xs = foldr max xs 0"

text \<open>
  \<^verbatim>\<open>np.interp\<close>: NaN stays NaN; left of the first sample point the first value, from
  the last sample point on the last value, at a sample point its value, and between two
  sample points the line through them (computed from the left point, and from the right
  point when that gave NaN).
\<close>

definition interp_seg :: "fl \<Rightarrow> real \<Rightarrow> fl \<Rightarrow> real \<Rightarrow> fl \<Rightarrow> fl" where
  "interp_seg x x0 f0 x1 f1 =
     (let slope = fl_div (fl_sub f1 f0) (Fin (x1 - x0));
          r = fl_add (fl_mul slope (fl_sub x (Fin x0))) f0
      in if isnan r
         then (let r2 = fl_add (fl_mul slope (fl_sub x (Fin x1))) f1
               in if isnan r2 \<and> fl_eq f0 f1 then f0 else r2)
         else r)"

fun interp_from :: "fl \<Rightarrow> (real \<times> fl) list \<Rightarrow> fl" where
  "interp_from x [] = NaN"
| "interp_from x [(x0, f0)] = f0"
| "interp_from x ((x0, f0) # (x1, f1) # ps) =
     (if fl_less x (Fin x1)
      then (if x = Fin x0 then f0 else interp_seg x x0 f0 x1 f1)
      else interp_from x ((x1, f1) # ps))"

definition interp1 :: "real list \<Rightarrow> fl list \<Rightarrow> fl \<Rightarrow> fl" where
  "interp1 xp fp x =
     (if isnan x then x
      else if fl_less x (Fin (hd xp)) then hd fp
      else interp_from x (zip xp fp))"

definition interp :: "fl list \<Rightarrow> real list \<Rightarrow> fl list \<Rightarrow> error + fl list" where
  "interp xs xp fp =
     (if xp = [] then Inl (ValueError ''array of sample points is empty'')
      else if length fp \<noteq> length xp then Inl (ValueError ''fp and xp are not of the same length.'')
      else Inr (map (interp1 xp fp) xs))"

definition cdf_normalized :: "fl list \<Rightarrow> fl list" where
  "cdf_normalized xs =
     (let img_hist = histogram xs (arange 257);
          cdf = cumsum img_hist
      in map (\<lambda>c. fl_div (fl_mul (Fin (real c)) (Fin (real (max_count img_hist))))
                         (Fin (real (max_count cdf)))) cdf)"

definition hist_eq_scaling :: "ndarray \<Rightarrow> error + ndarray" where
  "hist_eq_scaling data =
     and_then (interp (elems data) (butlast (arange 257)) (cdf_normalized (elems data)))
       (\<lambda>scaled_data. Inr \<lparr>shape = shape data, elems = scaled_data\<rparr>)"

section \<open>The dispatcher\<close>

text \<open>
  The keyword arguments of \<^verbatim>\<open>process_fits\<close> are a dictionary from names to values,
  kept in the order of the call. A value is \<^verbatim>\<open>None\<close>, a number or a pair of numbers.
  \<^verbatim>\<open>f(data, **kwargs)\<close> raises TypeError, before the body of \<^verbatim>\<open>f\<close> runs, for the
  first keyword that is not a parameter of \<^verbatim>\<open>f\<close> left to bind.
\<close>

datatype kwval = KNone | KNum fl | KPair real real

type_synonym kwargs = "(string \<times> kwval) list"

definition unexpected :: "string list \<Rightarrow> kwargs \<Rightarrow> string option" where
  "unexpected accepted kw =
     (case filter (\<lambda>k. k \<notin> set accepted) (map fst kw) of [] \<Rightarrow> None | k # _ \<Rightarrow> Some k)"

definition bound_arg :: "kwargs \<Rightarrow> string \<Rightarrow> error + fl option" where
  "bound_arg kw k =
     (case map_of kw k of
        None \<Rightarrow> Inr None
      | Some KNone \<Rightarrow> Inr None
      | Some (KNum v) \<Rightarrow> Inr (Some v)
      | Some (KPair _ _) \<Rightarrow> Inl (IllTyped k))"

definition number_arg :: "kwargs \<Rightarrow> string \<Rightarrow> fl \<Rightarrow> error + fl" where
  "number_arg kw k dflt =
     (case map_of kw k of
        None \<Rightarrow> Inr dflt
      | Some (KNum v) \<Rightarrow> Inr v
      | Some _ \<Rightarrow> Inl (IllTyped k))"

definition pair_arg :: "kwargs \<Rightarrow> string \<Rightarrow> real \<times> real \<Rightarrow> error + real \<times> real" where
  "pair_arg kw k dflt =
     (case map_of kw k of
        None \<Rightarrow> Inr dflt
      | Some (KPair a b) \<Rightarrow> Inr (a, b)
      | Some _ \<Rightarrow> Inl (IllTyped k))"

text \<open>The keyword parameters that each scaling function declares after \<^verbatim>\<open>data\<close>.\<close>

definition params_of :: "string \<Rightarrow> string list" where
  "params_of scaling_method =
     (if scaling_method = ''asinh'' then [''scale_min'', ''scale_max'', ''non_linear'']
      else if scaling_method = ''linear'' then [''scale_min'', ''scale_max'']
      else if scaling_method = ''log'' then [''scale_min'', ''scale_max'']
      else if scaling_method = ''sqrt'' then [''scale_min'', ''scale_max'', ''percentiles'']
      else [])"

definition call_asinh :: "ndarray \<Rightarrow> kwargs \<Rightarrow> error + ndarray" where
  "call_asinh data kw =
     (case unexpected (params_of ''asinh'') kw of
        Some k \<Rightarrow> Inl (TypeError k)
      | None \<Rightarrow>
          and_then (bound_arg kw ''scale_min'') (\<lambda>lo.
          and_then (bound_arg kw ''scale_max'') (\<lambda>hi.
          and_then (number_arg kw ''non_linear'' (Fin 2)) (\<lambda>k.
          asinh_scaling data lo hi k))))"

definition call_linear :: "ndarray \<Rightarrow> kwargs \<Rightarrow> error + ndarray" where
  "call_linear data kw =
     (case unexpected (params_of ''linear'') kw of
        Some k \<Rightarrow> Inl (TypeError k)
      | None \<Rightarrow>
          and_then (bound_arg kw ''scale_min'') (\<lambda>lo.
          and_then (bound_arg kw ''scale_max'') (\<lambda>hi.
          linear_scaling data lo hi)))"

definition call_log :: "ndarray \<Rightarrow> kwargs \<Rightarrow> error + ndarray" where
  "call_log data kw =
     (case unexpected (params_of ''log'') kw of
        Some k \<Rightarrow> Inl (TypeError k)
      | None \<Rightarrow>
          and_then (bound_arg kw ''scale_min'') (\<lambda>lo.
          and_then (bound_arg kw ''scale_max'') (\<lambda>hi.
          log_scaling data lo hi)))"

definition call_sqrt :: "ndarray \<Rightarrow> kwargs \<Rightarrow> error + ndarray" where
  "call_sqrt data kw =
     (case unexpected (params_of ''sqrt'') kw of
        Some k \<Rightarrow> Inl (TypeError k)
      | None \<Rightarrow>
          and_then (bound_arg kw ''scale_min'') (\<lambda>lo.
          and_then (bound_arg kw ''scale_max'') (\<lambda>hi.
          and_then (pair_arg kw ''percentiles'' (1, 99)) (\<lambda>ps.
          sqrt_scaling data lo hi ps))))"

definition call_hist_eq :: "ndarray \<Rightarrow> kwargs \<Rightarrow> error + ndarray" where
  "call_hist_eq data kw =
     (case unexpected (params_of ''hist_eq'') kw of
        Some k \<Rightarrow> Inl (TypeError k)
      | None \<Rightarrow> hist_eq_scaling data)"

text \<open>
  \<^verbatim>\<open>data[frame]\<close> on an array of three dimensions: the plane at \<open>frame\<close> along axis
  0, a negative index counting from the end, IndexError outside the axis.
\<close>

definition plane_at :: "ndarray \<Rightarrow> int \<Rightarrow> error + ndarray" where
  "plane_at data frame =
     (case shape data of
        [] \<Rightarrow> Inl (IndexError ''too many indices for array'')
      | n # rest \<Rightarrow>
          (let i = (if frame < 0 then frame + int n else frame); size = prod_list rest
           in if 0 \<le> i \<and> i < int n
              then Inr \<lparr>shape = rest, elems = take size (drop (nat i * size) (elems data))\<rparr>
              else Inl (IndexError ''index is out of bounds for axis 0'')))"

definition extract_frame :: "ndarray \<Rightarrow> int \<Rightarrow> error + ndarray" where
  "extract_frame data frame = (if ndim data = 3 then plane_at data frame else Inr data)"

definition scale_with :: "string \<Rightarrow> ndarray \<Rightarrow> kwargs \<Rightarrow> error + ndarray" where
  "scale_with scaling_method data kw =
     (if scaling_method = ''asinh'' then call_asinh data kw
      else if scaling_method = ''linear'' then call_linear data kw
      else if scaling_method = ''log'' then call_log data kw
      else if scaling_method = ''sqrt'' then call_sqrt data kw
      else if scaling_method = ''hist_eq'' then call_hist_eq data kw
      else Inl (ValueError (''Unknown scaling method: '' @ scaling_method)))"

definition renormalize :: "ndarray \<Rightarrow> error + ndarray" where
  "renormalize scaled_data =
     and_then (nanmin (elems scaled_data)) (\<lambda>lo.
     and_then (nanmax (elems scaled_data)) (\<lambda>hi.
     Inr (map_elems (\<lambda>x. fl_div (fl_sub x lo) (fl_sub hi lo)) scaled_data)))"

text \<open>
  \<^verbatim>\<open>process_fits\<close>, from the array read from the file on (\<open>data\<close> is
  \<^verbatim>\<open>hdul[1].data\<close>): the frame, the scaling method, the last normalization.
\<close>

definition process_fits :: "ndarray \<Rightarrow> string \<Rightarrow> int \<Rightarrow> kwargs \<Rightarrow> error + ndarray" where
  "process_fits data scaling_method frame kw =
     and_then (extract_frame data frame) (\<lambda>plane.
     and_then (scale_with scaling_method plane kw) renormalize)"

section \<open>Notions used in the statements\<close>

text \<open>The array with its non-finite entries removed: a one-dimensional array.\<close>

definition finite_only :: "ndarray \<Rightarrow> ndarray" where
  "finite_only data = \<lparr>shape = [length (valid_data data)], elems = valid_data data\<rparr>"

text \<open>The real number that a finite value stands for.\<close>

fun the_fin :: "fl \<Rightarrow> real" where
  "the_fin (Fin a) = a"
| "the_fin _ = 0"

text \<open>
  The percentile \<open>q\<close> of a sorted list of real numbers, by linear interpolation between
  neighbours: what \<open>quantile_sorted\<close> computes on finite values.
\<close>

definition quantile_real :: "real list \<Rightarrow> real \<Rightarrow> real" where
  "quantile_real s q =
     (let n = length s; v = q / 100 * (real n - 1) in
      if real n - 1 \<le> v then last s
      else let i = nat \<lfloor>v\<rfloor> in s ! i + (s ! (i + 1) - s ! i) * (v - real i))"

text \<open>The same, from the index \<open>v = q / 100 * (n - 1)\<close>.\<close>

definition interp_index :: "real list \<Rightarrow> real \<Rightarrow> real" where
  "interp_index s v =
     (if real (length s) - 1 \<le> v then last s
      else s ! nat \<lfloor>v\<rfloor> + (s ! (nat \<lfloor>v\<rfloor> + 1) - s ! nat \<lfloor>v\<rfloor>) * (v - real (nat \<lfloor>v\<rfloor>)))"

text \<open>
  For \<^verbatim>\<open>hist_eq_scaling\<close>: an entry that falls into one of the 256 bins (the last
  bin includes 256); the largest bin count \<^verbatim>\<open>img_hist.max()\<close>; and the lookup curve
  as real numbers, the cumulative counts times the largest bin count over the total count,
  which is what \<^verbatim>\<open>cdf_normalized\<close> holds when some entry falls into a bin.
\<close>

definition in_bins :: "fl \<Rightarrow> bool" where
  "in_bins z = (fl_le (Fin 0) z \<and> fl_le z (Fin 256))"

definition peak_count :: "fl list \<Rightarrow> nat" where
  "peak_count xs = max_count (histogram xs (arange 257))"

definition lookup_curve :: "fl list \<Rightarrow> real list" where
  "lookup_curve xs =
     (let img_hist = histogram xs (arange 257) in
      map (\<lambda>c. real c * real (max_count img_hist) / real (sum_list img_hist))
        (cumsum img_hist))"

text \<open>
  A float64 so large that the difference between it and its negative overflows:
  \<open>2^1023\<close>, about \<open>8.99e307\<close>.
\<close>

definition huge :: real where
  "huge = 2 ^ 1023"

section \<open>Results that do not overflow\<close>

lemma overflow_threshold_large: "2 ^ 1023 \<le> overflow_threshold"
proof -
  have "(1::real) \<le> 2 - 1 / 2 ^ 53" by simp
  then have "1 * 2 ^ 1023 \<le> (2 - 1 / 2 ^ 53) * (2::real) ^ 1023"
    by (rule mult_right_mono) simp
  then show ?thesis by (simp add: overflow_threshold_def)
qed

lemma max_float_less_threshold: "max_float < overflow_threshold"
proof -
  have "(2 - 1 / 2 ^ 52 :: real) < 2 - 1 / 2 ^ 53" by simp
  then have "(2 - 1 / 2 ^ 52) * 2 ^ 1023 < (2 - 1 / 2 ^ 53) * (2::real) ^ 1023"
    by (rule mult_strict_right_mono) simp
  then show ?thesis by (simp only: max_float_def overflow_threshold_def)
qed

lemma overflow_threshold_pos: "0 < overflow_threshold"
proof -
  have "(0::real) < 2 ^ 1023" by simp
  then show ?thesis using overflow_threshold_large by linarith
qed

lemma overflow_Fin: "\<bar>r\<bar> < overflow_threshold \<Longrightarrow> overflow r = Fin r"
  by (auto simp: overflow_def)

lemma overflow_in_range: "\<bar>r\<bar> \<le> max_float \<Longrightarrow> overflow r = Fin r"
  using max_float_less_threshold by (intro overflow_Fin) linarith

lemma million_in_range: "(1000000::real) < overflow_threshold"
proof -
  have "(1000000::real) < 2 ^ 20" by simp
  also have "\<dots> \<le> 2 ^ 1023" by (rule power_increasing) simp_all
  also have "\<dots> \<le> overflow_threshold" by (rule overflow_threshold_large)
  finally show ?thesis .
qed

lemma max_float_ge_million: "1000000 \<le> max_float"
proof -
  have "(1000000::real) \<le> 2 ^ 20" by simp
  also have "\<dots> \<le> 2 ^ 1023" by (rule power_increasing) simp_all
  also have "\<dots> = 1 * 2 ^ 1023" by simp
  also have "\<dots> \<le> (2 - 1 / 2 ^ 52) * 2 ^ 1023" by (rule mult_right_mono) simp_all
  finally show ?thesis by (simp only: max_float_def)
qed

lemma overflow_small [simp]: "\<bar>r\<bar> \<le> 1000000 \<Longrightarrow> overflow r = Fin r"
  using million_in_range by (intro overflow_Fin) linarith

lemma overflow_pow2:
  assumes "\<bar>r\<bar> \<le> 2 ^ k" and "k \<le> 1023"
  shows "overflow r = Fin r"
proof -
  have "(2::real) ^ k \<le> 2 ^ 1023" using assms(2) by (intro power_increasing) simp_all
  then have "\<bar>r\<bar> \<le> 2 ^ 1023" using assms(1) by linarith
  moreover have "(2::real) ^ 1023 < overflow_threshold"
  proof -
    have "(1::real) < 2 - 1 / 2 ^ 53" by simp
    then have "1 * 2 ^ 1023 < (2 - 1 / 2 ^ 53) * (2::real) ^ 1023"
      by (rule mult_strict_right_mono) simp
    then show ?thesis by (simp add: overflow_threshold_def)
  qed
  ultimately show ?thesis by (intro overflow_Fin) linarith
qed

lemma overflow_cases:
  "overflow r = Fin r \<or> (overflow r = PInf \<and> 0 < r) \<or> (overflow r = NInf \<and> r < 0)"
proof -
  have "0 < overflow_threshold" using million_in_range by linarith
  then show ?thesis by (auto simp: overflow_def)
qed

lemma overflow_not_NaN [simp]: "overflow r \<noteq> NaN" "NaN \<noteq> overflow r"
  by (auto simp: overflow_def)

lemma overflow_eq_Fin: "overflow r = Fin v \<Longrightarrow> v = r"
  by (auto simp: overflow_def split: if_splits)

lemma huge_float64: "\<bar>huge\<bar> \<le> max_float" "\<bar>- huge\<bar> \<le> max_float"
proof -
  have "(1::real) \<le> 2 - 1 / 2 ^ 52" by simp
  then have "1 * 2 ^ 1023 \<le> (2 - 1 / 2 ^ 52) * (2::real) ^ 1023"
    by (rule mult_right_mono) simp
  then have "huge \<le> max_float" by (simp add: huge_def max_float_def)
  moreover have "0 \<le> huge" by (simp add: huge_def)
  ultimately show "\<bar>huge\<bar> \<le> max_float" "\<bar>- huge\<bar> \<le> max_float" by simp_all
qed

lemma huge_spread_overflows: "overflow (huge + huge) = PInf"
proof -
  have "(2 - 1 / 2 ^ 53) * 2 ^ 1023 \<le> 2 * (2::real) ^ 1023"
    by (rule mult_right_mono) simp_all
  then have "overflow_threshold \<le> huge + huge"
    by (simp add: overflow_threshold_def huge_def)
  then show ?thesis by (simp add: overflow_def)
qed

lemma huge_pos: "0 < huge"
  by (simp add: huge_def)

section \<open>The asinh example\<close>

lemma sqrt2_sq: "sqrt 2 * sqrt 2 = (2::real)"
  by simp

lemma sqrt5_sq: "sqrt 5 * sqrt 5 = (5::real)"
  by simp

lemma pow4_sqrt2: "(1 + sqrt 2) ^ 4 = 17 + 12 * sqrt 2"
proof -
  have a: "(1 + sqrt 2) ^ 2 = 3 + 2 * sqrt 2"
    using sqrt2_sq by (simp add: power2_eq_square algebra_simps)
  have "(1 + sqrt 2) ^ 4 = ((1 + sqrt 2) ^ 2) ^ 2" by simp
  also have "\<dots> = (3 + 2 * sqrt 2) ^ 2" by (simp only: a)
  also have "\<dots> = 17 + 12 * sqrt 2"
    using sqrt2_sq by (simp add: power2_eq_square algebra_simps)
  finally show ?thesis .
qed

lemma pow5_sqrt2: "(1 + sqrt 2) ^ 5 = 41 + 29 * sqrt 2"
proof -
  have "x ^ 5 = x ^ 4 * x" for x :: real by (simp add: eval_nat_numeral)
  then have "(1 + sqrt 2) ^ 5 = (1 + sqrt 2) ^ 4 * (1 + sqrt 2)" .
  also have "\<dots> = (17 + 12 * sqrt 2) * (1 + sqrt 2)" by (simp only: pow4_sqrt2)
  also have "\<dots> = 41 + 29 * sqrt 2" using sqrt2_sq by (simp add: algebra_simps)
  finally show ?thesis .
qed

lemma pow8_sqrt2: "(1 + sqrt 2) ^ 8 = 577 + 408 * sqrt 2"
proof -
  have "(1 + sqrt 2) ^ 8 = ((1 + sqrt 2) ^ 4) ^ 2" by simp
  also have "\<dots> = (17 + 12 * sqrt 2) ^ 2" by (simp only: pow4_sqrt2)
  also have "\<dots> = 577 + 408 * sqrt 2"
    using sqrt2_sq by (simp add: power2_eq_square algebra_simps)
  finally show ?thesis .
qed

lemma pow2_sqrt5: "(2 + sqrt 5) ^ 2 = 9 + 4 * sqrt 5"
  using sqrt5_sq by (simp add: power2_eq_square algebra_simps)

lemma pow3_sqrt5: "(2 + sqrt 5) ^ 3 = 38 + 17 * sqrt 5"
proof -
  have "(2 + sqrt 5) ^ 3 = (2 + sqrt 5) ^ 2 * (2 + sqrt 5)"
    by (simp add: power3_eq_cube power2_eq_square)
  also have "\<dots> = (9 + 4 * sqrt 5) * (2 + sqrt 5)" by (simp only: pow2_sqrt5)
  also have "\<dots> = 38 + 17 * sqrt 5" using sqrt5_sq by (simp add: algebra_simps)
  finally show ?thesis .
qed

lemma pow5_sqrt5: "(2 + sqrt 5) ^ 5 = 682 + 305 * sqrt 5"
proof -
  have "(2 + sqrt 5) ^ 5 = (2 + sqrt 5) ^ 3 * (2 + sqrt 5) ^ 2"
    by (simp add: power_add [symmetric])
  also have "\<dots> = (38 + 17 * sqrt 5) * (9 + 4 * sqrt 5)" by (simp only: pow3_sqrt5 pow2_sqrt5)
  also have "\<dots> = 682 + 305 * sqrt 5" using sqrt5_sq by (simp add: algebra_simps)
  finally show ?thesis .
qed

lemma arsinh_2_lower: "3 * arsinh (2::real) < 5 * arsinh 1"
proof -
  have p1: "0 < 2 + sqrt 5" by (intro add_pos_nonneg) auto
  have p2: "0 < 1 + sqrt 2" by (intro add_pos_nonneg) auto
  have "sqrt 5 < 9 / 4" by (rule real_less_lsqrt) (auto simp: power2_eq_square)
  moreover have "7 / 5 < sqrt 2" by (rule real_less_rsqrt) (auto simp: power2_eq_square)
  ultimately have "38 + 17 * sqrt 5 < 41 + 29 * sqrt 2" by linarith
  then have lt: "(2 + sqrt 5) ^ 3 < (1 + sqrt 2) ^ 5" by (simp only: pow5_sqrt2 pow3_sqrt5)
  have "ln ((2 + sqrt 5) ^ 3) < ln ((1 + sqrt 2) ^ 5)"
    using lt p1 p2 by (subst ln_less_cancel_iff) auto
  then have "3 * ln (2 + sqrt 5) < 5 * ln (1 + sqrt 2)"
    using p1 p2 by (simp add: ln_realpow)
  then show ?thesis by (simp add: arsinh_real_def)
qed

lemma arsinh_2_upper: "8 * arsinh (1::real) < 5 * arsinh 2"
proof -
  have p1: "0 < 2 + sqrt 5" by (intro add_pos_nonneg) auto
  have p2: "0 < 1 + sqrt 2" by (intro add_pos_nonneg) auto
  have "sqrt 2 < 3 / 2" by (rule real_less_lsqrt) (auto simp: power2_eq_square)
  moreover have "2 < sqrt 5" by (rule real_less_rsqrt) (auto simp: power2_eq_square)
  ultimately have "577 + 408 * sqrt 2 < 682 + 305 * sqrt 5" by linarith
  then have lt: "(1 + sqrt 2) ^ 8 < (2 + sqrt 5) ^ 5" by (simp only: pow8_sqrt2 pow5_sqrt5)
  have "ln ((1 + sqrt 2) ^ 8) < ln ((2 + sqrt 5) ^ 5)"
    using lt p1 p2 by (subst ln_less_cancel_iff) auto
  then have "8 * ln (1 + sqrt 2) < 5 * ln (2 + sqrt 5)"
    using p1 p2 by (simp add: ln_realpow)
  then show ?thesis by (simp add: arsinh_real_def)
qed

lemma arsinh_ratio_bounds:
  "3 / 5 < arsinh 1 / arsinh (2::real)" "arsinh 1 / arsinh (2::real) < 5 / 8"
proof -
  have pos: "0 < arsinh (2::real)" by simp
  show "3 / 5 < arsinh 1 / arsinh (2::real)"
    using arsinh_2_lower pos by (simp add: field_simps)
  show "arsinh 1 / arsinh (2::real) < 5 / 8"
    using arsinh_2_upper pos by (simp add: field_simps)
qed

lemma asinh_example_value:
  "asinh_scaling \<lparr>shape = [3], elems = [Fin (- 1), Fin 0, Fin 1]\<rparr>
     (Some (Fin (- 1))) (Some (Fin 1)) (Fin 1)
   = Inr \<lparr>shape = [3], elems = [Fin 0, Fin (arsinh 1 / arsinh 2), Fin 1]\<rparr>"
proof -
  have "overflow (arsinh 1 / arsinh 2) = Fin (arsinh 1 / arsinh (2::real))"
    using arsinh_ratio_bounds by (intro overflow_small) linarith
  then show ?thesis
    by (simp add: asinh_scaling_def extrema_range_def and_then_def map_elems_def fl_sub_def)
qed

text \<open>
  C3, as the claim states it, fails: \<^verbatim>\<open>asinh_scaling([-1, 0, 1], scale_min=-1, scale_max=1,
  non_linear=1.0)\<close> does not map the middle entry to 0.5. The entry 0 lies one unit above
  \<open>scale_min\<close>, so the numerator is \<open>arcsinh 1\<close>, not \<open>arcsinh 0\<close>.
\<close>

theorem asinh_midpoint_counterexample:
  "asinh_scaling \<lparr>shape = [3], elems = [Fin (- 1), Fin 0, Fin 1]\<rparr>
     (Some (Fin (- 1))) (Some (Fin 1)) (Fin 1)
   = Inr \<lparr>shape = [3], elems = [Fin 0, Fin (arsinh 1 / arsinh 2), Fin 1]\<rparr>
   \<and> Fin (arsinh 1 / arsinh 2) \<noteq> Fin (1 / 2)"
proof -
  have "arsinh 1 / arsinh (2::real) \<noteq> 1 / 2"
    using arsinh_ratio_bounds(1) by linarith
  then show ?thesis
    using asinh_example_value by (simp only: fl.inject simp_thms)
qed

text \<open>
  C3, amended: with these parameters \<^verbatim>\<open>asinh_scaling\<close> maps the entries -1, 0, 1 to
  0, \<open>arcsinh 1 / arcsinh 2\<close> and 1, and the middle value lies strictly between 0.6 and
  0.625 (it is about 0.61), above the midpoint 0.5.
\<close>

theorem asinh_example_middle_entry:
  "asinh_scaling \<lparr>shape = [3], elems = [Fin (- 1), Fin 0, Fin 1]\<rparr>
     (Some (Fin (- 1))) (Some (Fin 1)) (Fin 1)
   = Inr \<lparr>shape = [3], elems = [Fin 0, Fin (arsinh 1 / arsinh 2), Fin 1]\<rparr>
   \<and> 3 / 5 < arsinh 1 / arsinh (2::real) \<and> arsinh 1 / arsinh (2::real) < 5 / 8"
  using asinh_example_value arsinh_ratio_bounds by simp

section \<open>Arrays of other ranks\<close>

text \<open>
  C5: \<^verbatim>\<open>process_fits\<close> has no check of the rank. A one-dimensional array is not
  rejected: the frame extraction leaves it as it is and \<^verbatim>\<open>linear_scaling\<close> and the
  last normalization scale it. (\<^verbatim>\<open>visualize_fits\<close>, in the same class, raises
  \<^verbatim>\<open>ValueError("image_data must be 2D or 3D.")\<close> for such an array.)
\<close>

theorem process_fits_accepts_rank_1:
  "extract_frame \<lparr>shape = [3], elems = [Fin 0, Fin 5, Fin 10]\<rparr> 0
     = Inr \<lparr>shape = [3], elems = [Fin 0, Fin 5, Fin 10]\<rparr>
   \<and> process_fits \<lparr>shape = [3], elems = [Fin 0, Fin 5, Fin 10]\<rparr> ''linear'' 0 []
     = Inr \<lparr>shape = [3], elems = [Fin 0, Fin (1 / 2), Fin 1]\<rparr>"
  by (simp add: process_fits_def extract_frame_def ndim_def scale_with_def call_linear_def
      unexpected_def bound_arg_def linear_scaling_def extrema_range_def valid_data_def
      and_then_def map_elems_def fl_sub_def np_fmin_def np_fmax_def clip_def np_minimum_def
      np_maximum_def renormalize_def)

section \<open>Keyword arguments that a method does not take\<close>

lemma and_then_Inl [simp]: "and_then (Inl e) f = Inl e"
  by (simp add: and_then_def)

lemma and_then_Inr [simp]: "and_then (Inr v) f = f v"
  by (simp add: and_then_def)

lemma scale_with_unexpected:
  assumes "scaling_method \<in> {''asinh'', ''linear'', ''log'', ''sqrt'', ''hist_eq''}"
    and "unexpected (params_of scaling_method) kw = Some k"
  shows "scale_with scaling_method plane kw = Inl (TypeError k)"
proof -
  consider "scaling_method = ''asinh''" | "scaling_method = ''linear''" | "scaling_method = ''log''"
    | "scaling_method = ''sqrt''" | "scaling_method = ''hist_eq''"
    using assms(1) by (elim insertE emptyE)
  then show ?thesis
  proof cases
    case 1 with assms(2) show ?thesis by (simp add: scale_with_def call_asinh_def)
  next
    case 2 with assms(2) show ?thesis by (simp add: scale_with_def call_linear_def)
  next
    case 3 with assms(2) show ?thesis by (simp add: scale_with_def call_log_def)
  next
    case 4 with assms(2) show ?thesis by (simp add: scale_with_def call_sqrt_def)
  next
    case 5 with assms(2) show ?thesis by (simp add: scale_with_def call_hist_eq_def)
  qed
qed


lemma unexpected_first:
  assumes "k \<in> fst ` set kw" and "k \<notin> set accepted"
  shows "\<exists>pre k' v post. kw = pre @ (k', v) # post \<and>
           (\<forall>p \<in> set pre. fst p \<in> set accepted) \<and> k' \<notin> set accepted \<and>
           unexpected accepted kw = Some k'"
  using assms(1)
proof (induction kw)
  case Nil
  then show ?case by simp
next
  case (Cons p kw)
  obtain k0 v0 where p: "p = (k0, v0)" by (cases p)
  show ?case
  proof (cases "k0 \<in> set accepted")
    case False
    have "p # kw = [] @ (k0, v0) # kw" by (simp add: p)
    moreover have "unexpected accepted (p # kw) = Some k0"
      using False by (simp add: unexpected_def p)
    ultimately show ?thesis using False by fastforce
  next
    case True
    then have "k \<noteq> k0" using assms(2) by auto
    then have "k \<in> fst ` set kw" using Cons.prems p by auto
    from Cons.IH [OF this] obtain pre k' v post where
      d: "kw = pre @ (k', v) # post" "\<forall>p \<in> set pre. fst p \<in> set accepted"
         "k' \<notin> set accepted" "unexpected accepted kw = Some k'" by blast
    have "p # kw = (p # pre) @ (k', v) # post" using d(1) by simp
    moreover have "\<forall>q \<in> set (p # pre). fst q \<in> set accepted" using d(2) True p by simp
    moreover have "unexpected accepted (p # kw) = Some k'"
      using d(4) True by (simp add: unexpected_def p)
    ultimately show ?thesis using d(3) by blast
  qed
qed

lemma extract_frame_in_range:
  assumes "ndim data = 3 \<longrightarrow> - int (hd (shape data)) \<le> frame \<and> frame < int (hd (shape data))"
  shows "\<exists>plane. extract_frame data frame = Inr plane"
proof (cases "ndim data = 3")
  case False
  then show ?thesis by (simp add: extract_frame_def)
next
  case True
  then obtain n rest where s: "shape data = n # rest"
    by (cases "shape data") (simp_all add: ndim_def)
  with assms True have "- int n \<le> frame" "frame < int n" by simp_all
  then show ?thesis using True by (auto simp: extract_frame_def plane_at_def s Let_def)
qed

lemma params_of_linear: "params_of ''linear'' = [''scale_min'', ''scale_max'']"
  by (simp add: params_of_def)

text \<open>
  The only input for which \<^verbatim>\<open>data[frame]\<close> does not exist: three dimensions and an
  index outside axis 0. There the IndexError of the indexing is raised before any scaling
  function is called.
\<close>

lemma extract_frame_out_of_range:
  assumes "ndim data = 3"
    and "\<not> (- int (hd (shape data)) \<le> frame \<and> frame < int (hd (shape data)))"
  shows "extract_frame data frame = Inl (IndexError ''index is out of bounds for axis 0'')"
    and "process_fits data scaling_method frame kw =
           Inl (IndexError ''index is out of bounds for axis 0'')"
proof -
  from assms(1) obtain n rest where s: "shape data = n # rest"
    by (cases "shape data") (simp_all add: ndim_def)
  with assms show e: "extract_frame data frame =
      Inl (IndexError ''index is out of bounds for axis 0'')"
    by (auto simp: extract_frame_def plane_at_def Let_def)
  show "process_fits data scaling_method frame kw =
      Inl (IndexError ''index is out of bounds for axis 0'')"
    by (simp add: process_fits_def e)
qed

text \<open>
  C4: for each of the five methods, when the keyword arguments hold a keyword that the
  scaling function does not declare, the call of the scaling function raises TypeError
  for the first such keyword in the order of the call, whatever the plane: Python binds
  the arguments before the body of the function runs, so none of the scaling runs and no
  array is returned. \<^verbatim>\<open>process_fits\<close> reaches that call once \<^verbatim>\<open>data[frame]\<close> has
  been taken, that is for every input that is not three-dimensional and for every
  three-dimensional input whose axis 0 has the index \<open>frame\<close>; the TypeError is then
  what its caller gets.
\<close>

theorem unexpected_keyword_rejected:
  assumes "scaling_method \<in> {''asinh'', ''linear'', ''log'', ''sqrt'', ''hist_eq''}"
    and "k \<in> fst ` set kw" and "k \<notin> set (params_of scaling_method)"
    and "ndim data = 3 \<longrightarrow> - int (hd (shape data)) \<le> frame \<and> frame < int (hd (shape data))"
  shows "\<exists>pre k' v post.
           kw = pre @ (k', v) # post \<and>
           (\<forall>p \<in> set pre. fst p \<in> set (params_of scaling_method)) \<and>
           k' \<notin> set (params_of scaling_method) \<and>
           (\<forall>plane. scale_with scaling_method plane kw = Inl (TypeError k')) \<and>
           process_fits data scaling_method frame kw = Inl (TypeError k')"
proof -
  from unexpected_first [OF assms(2,3)] obtain pre k' v post where
    d: "kw = pre @ (k', v) # post" "\<forall>p \<in> set pre. fst p \<in> set (params_of scaling_method)"
       "k' \<notin> set (params_of scaling_method)"
       "unexpected (params_of scaling_method) kw = Some k'" by blast
  have call: "scale_with scaling_method plane kw = Inl (TypeError k')" for plane
    by (rule scale_with_unexpected [OF assms(1) d(4)])
  from extract_frame_in_range [OF assms(4)] obtain plane where
    "extract_frame data frame = Inr plane" by blast
  then have "process_fits data scaling_method frame kw = Inl (TypeError k')"
    by (simp add: process_fits_def call)
  with d(1-3) call show ?thesis by blast
qed

theorem unexpected_keyword_rejected_witness:
  "process_fits \<lparr>shape = [2, 1, 1], elems = [Fin 0, Fin 1]\<rparr> ''linear'' 1
     [(''scale_min'', KNum (Fin 0)), (''percentiles'', KPair 1 99), (''bins'', KNone)]
     = Inl (TypeError ''percentiles'')"
proof -
  let ?d = "\<lparr>shape = [2, 1, 1], elems = [Fin 0, Fin 1]\<rparr>"
  let ?kw = "[(''scale_min'', KNum (Fin 0)), (''percentiles'', KPair 1 99), (''bins'', KNone)]"
  have m: "''linear'' \<in> {''asinh'', ''linear'', ''log'', ''sqrt'', ''hist_eq''}" by simp
  have k: "''bins'' \<in> fst ` set ?kw" by simp
  have n: "''bins'' \<notin> set (params_of ''linear'')" by (simp add: params_of_linear)
  have f: "ndim ?d = 3 \<longrightarrow> - int (hd (shape ?d)) \<le> 1 \<and> 1 < int (hd (shape ?d))" by simp
  from unexpected_keyword_rejected [OF m k n f]
  obtain pre k' v post where
    d: "?kw = pre @ (k', v) # post" "\<forall>p \<in> set pre. fst p \<in> set (params_of ''linear'')"
       "k' \<notin> set (params_of ''linear'')"
       "process_fits ?d ''linear'' 1 ?kw = Inl (TypeError k')" by blast
  have "k' = ''percentiles''"
  proof (cases pre)
    case Nil
    with d(1,3) show ?thesis by (simp add: params_of_linear)
  next
    case (Cons p pre')
    show ?thesis
    proof (cases pre')
      case Nil
      with Cons d(1) show ?thesis by simp
    next
      case (Cons q pre'')
      with \<open>pre = p # pre'\<close> d(1) have "q = (''percentiles'', KPair 1 99)" by simp
      with Cons \<open>pre = p # pre'\<close> d(2) show ?thesis by (simp add: params_of_linear)
    qed
  qed
  with d(4) show ?thesis by simp
qed

section \<open>Inputs without a finite entry\<close>

lemma valid_data_empty:
  assumes "\<forall>x \<in> set (elems data). \<not> isfinite x"
  shows "valid_data data = []"
  using assms by (simp add: valid_data_def filter_empty_conv)

lemma extrema_range_empty:
  assumes "valid_data data = []" and "scale_min = None \<or> scale_max = None"
  shows "extrema_range data scale_min scale_max =
           Inl (zero_size (if scale_min = None then ''fmin'' else ''fmax''))"
  using assms by (cases scale_min; cases scale_max) (simp_all add: extrema_range_def)

lemma percentile_range_empty:
  assumes "valid_data data = []" and "scale_min = None \<or> scale_max = None"
  shows "percentile_range data scale_min scale_max (q1, q2) =
           Inl (if 0 \<le> q1 \<and> q1 \<le> 100 \<and> 0 \<le> q2 \<and> q2 \<le> 100
                then IndexError ''index -1 is out of bounds for axis 0 with size 0''
                else ValueError ''Percentiles must be in the range [0, 100]'')"
  using assms
  by (cases scale_min; cases scale_max) (simp_all add: percentile_range_def percentile_def)

lemma plane_at_subset:
  assumes "plane_at data frame = Inr plane"
  shows "set (elems plane) \<subseteq> set (elems data)"
proof (cases "shape data")
  case Nil
  with assms show ?thesis by (simp add: plane_at_def)
next
  case (Cons n rest)
  with assms have "elems plane =
      take (prod_list rest) (drop (nat (if frame < 0 then frame + int n else frame) * prod_list rest) (elems data))"
    by (auto simp: plane_at_def Let_def split: if_splits)
  then show ?thesis
    by (metis set_take_subset set_drop_subset subset_trans)
qed

lemma extract_frame_subset:
  assumes "extract_frame data frame = Inr plane"
  shows "set (elems plane) \<subseteq> set (elems data)"
  using assms plane_at_subset by (auto simp: extract_frame_def split: if_splits)

lemma unexpected_Nil [simp]: "unexpected accepted [] = None"
  by (simp add: unexpected_def)

lemma bound_arg_Nil [simp]: "bound_arg [] k = Inr None"
  by (simp add: bound_arg_def)

lemma number_arg_Nil [simp]: "number_arg [] k d = Inr d"
  by (simp add: number_arg_def)

lemma pair_arg_Nil [simp]: "pair_arg [] k d = Inr d"
  by (simp add: pair_arg_def)

lemma scale_with_no_kwargs:
  "scale_with ''asinh'' plane [] = asinh_scaling plane None None (Fin 2)"
  "scale_with ''linear'' plane [] = linear_scaling plane None None"
  "scale_with ''log'' plane [] = log_scaling plane None None"
  "scale_with ''sqrt'' plane [] = sqrt_scaling plane None None (1, 99)"
  "scale_with ''hist_eq'' plane [] = hist_eq_scaling plane"
  by (simp_all add: scale_with_def call_asinh_def call_linear_def call_log_def call_sqrt_def
      call_hist_eq_def)

text \<open>
  C6, as the claim states it, fails: the code has no check for an input without finite
  entries, and what is raised is whatever numpy raises on the empty array of valid data.
  In \<^verbatim>\<open>sqrt_scaling\<close> that is an IndexError about the index -1, of another exception
  class than the ValueError of the other three functions; and when a percentile lies
  outside \<open>[0, 100]\<close> it is the ValueError about the percentiles, the same that is
  raised on an input with finite entries.
\<close>

theorem empty_data_error_counterexample:
  "process_fits \<lparr>shape = [1, 2], elems = [NaN, PInf]\<rparr> ''sqrt'' 0 [] =
     Inl (IndexError ''index -1 is out of bounds for axis 0 with size 0'') \<and>
   process_fits \<lparr>shape = [1, 2], elems = [NaN, PInf]\<rparr> ''linear'' 0 [] =
     Inl (ValueError ''zero-size array to reduction operation fmin which has no identity'') \<and>
   sqrt_scaling \<lparr>shape = [1, 2], elems = [NaN, PInf]\<rparr> None None (1, 101) =
     Inl (ValueError ''Percentiles must be in the range [0, 100]'') \<and>
   sqrt_scaling \<lparr>shape = [1, 2], elems = [Fin 1, Fin 2]\<rparr> None None (1, 101) =
     Inl (ValueError ''Percentiles must be in the range [0, 100]'')"
  by (simp add: process_fits_def extract_frame_def ndim_def scale_with_no_kwargs sqrt_scaling_def
      linear_scaling_def extrema_range_def percentile_range_def percentile_def valid_data_def
      zero_size_def)

text \<open>
  C6, amended: when the input has no finite entry and a bound is missing, each of the four
  scaling functions that derive bounds raises, and returns neither bounds nor an array:
  \<^verbatim>\<open>linear_scaling\<close>, \<^verbatim>\<open>log_scaling\<close> and \<^verbatim>\<open>asinh_scaling\<close> raise the
  ValueError of \<^verbatim>\<open>np.nanmin\<close> on the empty array of valid data ("zero-size array to
  reduction operation fmin which has no identity"; of \<^verbatim>\<open>np.nanmax\<close>, with
  \<^verbatim>\<open>fmax\<close>, when only \<^verbatim>\<open>scale_max\<close> is missing), and \<^verbatim>\<open>sqrt_scaling\<close> raises
  the IndexError of \<^verbatim>\<open>np.percentile\<close> ("index -1 is out of bounds for axis 0 with size
  0"), or its ValueError when a percentile is outside \<open>[0, 100]\<close>.
  \<^verbatim>\<open>process_fits\<close> passes the exception on to its caller.
\<close>

theorem no_finite_entry_raises:
  assumes "\<forall>x \<in> set (elems data). \<not> isfinite x"
    and "scale_min = None \<or> scale_max = None"
  shows "linear_scaling data scale_min scale_max =
           Inl (zero_size (if scale_min = None then ''fmin'' else ''fmax'')) \<and>
         log_scaling data scale_min scale_max =
           Inl (zero_size (if scale_min = None then ''fmin'' else ''fmax'')) \<and>
         asinh_scaling data scale_min scale_max non_linear =
           Inl (zero_size (if scale_min = None then ''fmin'' else ''fmax'')) \<and>
         sqrt_scaling data scale_min scale_max (q1, q2) =
           Inl (if 0 \<le> q1 \<and> q1 \<le> 100 \<and> 0 \<le> q2 \<and> q2 \<le> 100
                then IndexError ''index -1 is out of bounds for axis 0 with size 0''
                else ValueError ''Percentiles must be in the range [0, 100]'') \<and>
         (\<forall>plane. extract_frame data frame = Inr plane \<longrightarrow>
            process_fits data ''linear'' frame [] = Inl (zero_size ''fmin'') \<and>
            process_fits data ''log'' frame [] = Inl (zero_size ''fmin'') \<and>
            process_fits data ''asinh'' frame [] = Inl (zero_size ''fmin'') \<and>
            process_fits data ''sqrt'' frame [] =
              Inl (IndexError ''index -1 is out of bounds for axis 0 with size 0''))"
proof -
  have v: "valid_data data = []" by (rule valid_data_empty [OF assms(1)])
  note e = extrema_range_empty [OF v assms(2)]
  have 1: "linear_scaling data scale_min scale_max =
           Inl (zero_size (if scale_min = None then ''fmin'' else ''fmax''))"
    by (simp only: linear_scaling_def e and_then_Inl)
  have 2: "log_scaling data scale_min scale_max =
           Inl (zero_size (if scale_min = None then ''fmin'' else ''fmax''))"
    by (simp only: log_scaling_def e and_then_Inl)
  have 3: "asinh_scaling data scale_min scale_max non_linear =
           Inl (zero_size (if scale_min = None then ''fmin'' else ''fmax''))"
    by (simp only: asinh_scaling_def e and_then_Inl)
  have 4: "sqrt_scaling data scale_min scale_max (q1, q2) =
           Inl (if 0 \<le> q1 \<and> q1 \<le> 100 \<and> 0 \<le> q2 \<and> q2 \<le> 100
                then IndexError ''index -1 is out of bounds for axis 0 with size 0''
                else ValueError ''Percentiles must be in the range [0, 100]'')"
    by (simp only: sqrt_scaling_def percentile_range_empty [OF v assms(2)] and_then_Inl)
  have 5: "process_fits data ''linear'' frame [] = Inl (zero_size ''fmin'') \<and>
            process_fits data ''log'' frame [] = Inl (zero_size ''fmin'') \<and>
            process_fits data ''asinh'' frame [] = Inl (zero_size ''fmin'') \<and>
            process_fits data ''sqrt'' frame [] =
              Inl (IndexError ''index -1 is out of bounds for axis 0 with size 0'')"
    if ex: "extract_frame data frame = Inr plane" for plane
  proof -
    have "\<forall>x \<in> set (elems plane). \<not> isfinite x"
      using extract_frame_subset [OF ex] assms(1) by blast
    then have pv: "valid_data plane = []" by (rule valid_data_empty)
    have pe: "extrema_range plane None None = Inl (zero_size ''fmin'')"
      using extrema_range_empty [OF pv, of None None] by simp
    have pp: "percentile_range plane None None (1, 99) =
        Inl (IndexError ''index -1 is out of bounds for axis 0 with size 0'')"
      using percentile_range_empty [OF pv, of None None 1 99] by simp
    show ?thesis
      by (simp add: process_fits_def ex scale_with_no_kwargs linear_scaling_def log_scaling_def
          asinh_scaling_def sqrt_scaling_def pe pp)
  qed
  from 1 2 3 4 5 show ?thesis by blast
qed


theorem no_finite_entry_raises_witness:
  "linear_scaling \<lparr>shape = [1, 2], elems = [NaN, PInf]\<rparr> None (Some (Fin 1)) =
     Inl (zero_size ''fmin'') \<and>
   sqrt_scaling \<lparr>shape = [1, 2], elems = [NaN, PInf]\<rparr> None (Some (Fin 1)) (1, 99) =
     Inl (IndexError ''index -1 is out of bounds for axis 0 with size 0'') \<and>
   process_fits \<lparr>shape = [1, 2], elems = [NaN, PInf]\<rparr> ''asinh'' 0 [] =
     Inl (zero_size ''fmin'')"
proof -
  let ?d = "\<lparr>shape = [1, 2], elems = [NaN, PInf]\<rparr>"
  have h1: "\<forall>x \<in> set (elems ?d). \<not> isfinite x" by simp
  have h2: "(None :: fl option) = None \<or> Some (Fin 1) = None" by simp
  have ex: "extract_frame ?d 0 = Inr ?d" by (simp add: extract_frame_def ndim_def)
  from no_finite_entry_raises [OF h1 h2, of "Fin 2" 1 99 0] ex
  show ?thesis by simp
qed

section \<open>Minimum and maximum of an array\<close>

lemma fl_le_refl: "\<not> isnan a \<Longrightarrow> fl_le a a"
  by (cases a) simp_all

lemma fl_le_trans: "fl_le a b \<Longrightarrow> fl_le b c \<Longrightarrow> fl_le a c"
  by (cases a; cases b; cases c) simp_all

lemma fl_less_imp_le: "fl_less a b \<Longrightarrow> fl_le a b"
  by (cases a; cases b) simp_all

lemma fl_not_less_imp_le: "\<not> isnan a \<Longrightarrow> \<not> isnan b \<Longrightarrow> \<not> fl_less b a \<Longrightarrow> fl_le a b"
  by (cases a; cases b) simp_all

lemma fl_le_not_nan: "fl_le a b \<Longrightarrow> \<not> isnan a \<and> \<not> isnan b"
  by (cases a; cases b) simp_all

lemma np_fmin_cases: "np_fmin a b = a \<or> np_fmin a b = b"
  by (simp add: np_fmin_def)

lemma np_fmax_cases: "np_fmax a b = a \<or> np_fmax a b = b"
  by (simp add: np_fmax_def)

lemma foldl_fmin_mem: "foldl np_fmin x xs \<in> set (x # xs)"
proof (induction xs arbitrary: x)
  case Nil
  show ?case by simp
next
  case (Cons y ys)
  from Cons.IH [of "np_fmin x y"] np_fmin_cases [of x y] show ?case by auto
qed

lemma foldl_fmax_mem: "foldl np_fmax x xs \<in> set (x # xs)"
proof (induction xs arbitrary: x)
  case Nil
  show ?case by simp
next
  case (Cons y ys)
  from Cons.IH [of "np_fmax x y"] np_fmax_cases [of x y] show ?case by auto
qed

lemma np_fmin_le:
  assumes "\<not> isnan a \<or> \<not> isnan b"
  shows "\<not> isnan (np_fmin a b) \<and> (\<not> isnan a \<longrightarrow> fl_le (np_fmin a b) a)
          \<and> (\<not> isnan b \<longrightarrow> fl_le (np_fmin a b) b)"
  using assms by (cases a; cases b) (simp_all add: np_fmin_def)

lemma np_fmax_ge:
  assumes "\<not> isnan a \<or> \<not> isnan b"
  shows "\<not> isnan (np_fmax a b) \<and> (\<not> isnan a \<longrightarrow> fl_le a (np_fmax a b))
          \<and> (\<not> isnan b \<longrightarrow> fl_le b (np_fmax a b))"
  using assms by (cases a; cases b) (simp_all add: np_fmax_def)

lemma foldl_fmin_le:
  assumes "y \<in> set (x # xs)" and "\<not> isnan y"
  shows "fl_le (foldl np_fmin x xs) y"
  using assms
proof (induction xs arbitrary: x y)
  case Nil
  then show ?case by (simp add: fl_le_refl)
next
  case (Cons z zs)
  let ?m = "np_fmin x z"
  show ?case
  proof (cases "y \<in> set zs")
    case True
    then show ?thesis using Cons.IH [where x = ?m and y = y] Cons.prems(2) by simp
  next
    case False
    then have yxz: "y = x \<or> y = z" using Cons.prems(1) by auto
    then have "\<not> isnan x \<or> \<not> isnan z" using Cons.prems(2) by auto
    from np_fmin_le [OF this] yxz Cons.prems(2)
    have my: "fl_le ?m y" and mn: "\<not> isnan ?m" by auto
    have "fl_le (foldl np_fmin ?m zs) ?m" using Cons.IH [where x = ?m and y = ?m] mn by simp
    then show ?thesis using my fl_le_trans by auto
  qed
qed

lemma foldl_fmax_ge:
  assumes "y \<in> set (x # xs)" and "\<not> isnan y"
  shows "fl_le y (foldl np_fmax x xs)"
  using assms
proof (induction xs arbitrary: x y)
  case Nil
  then show ?case by (simp add: fl_le_refl)
next
  case (Cons z zs)
  let ?m = "np_fmax x z"
  show ?case
  proof (cases "y \<in> set zs")
    case True
    then show ?thesis using Cons.IH [where x = ?m and y = y] Cons.prems(2) by simp
  next
    case False
    then have yxz: "y = x \<or> y = z" using Cons.prems(1) by auto
    then have "\<not> isnan x \<or> \<not> isnan z" using Cons.prems(2) by auto
    from np_fmax_ge [OF this] yxz Cons.prems(2)
    have my: "fl_le y ?m" and mn: "\<not> isnan ?m" by auto
    have "fl_le ?m (foldl np_fmax ?m zs)" using Cons.IH [where x = ?m and y = ?m] mn by simp
    then show ?thesis using my fl_le_trans by auto
  qed
qed

lemma nanmin_props:
  assumes "xs \<noteq> []"
  shows "\<exists>m. nanmin xs = Inr m \<and> m \<in> set xs \<and> (\<forall>y \<in> set xs. \<not> isnan y \<longrightarrow> fl_le m y)"
proof -
  from assms obtain x ys where xs: "xs = x # ys" by (cases xs) auto
  show ?thesis
    unfolding xs using foldl_fmin_mem [of x ys] foldl_fmin_le [of _ x ys] by auto
qed

lemma nanmax_props:
  assumes "xs \<noteq> []"
  shows "\<exists>m. nanmax xs = Inr m \<and> m \<in> set xs \<and> (\<forall>y \<in> set xs. \<not> isnan y \<longrightarrow> fl_le y m)"
proof -
  from assms obtain x ys where xs: "xs = x # ys" by (cases xs) auto
  show ?thesis
    unfolding xs using foldl_fmax_mem [of x ys] foldl_fmax_ge [of _ x ys] by auto
qed

section \<open>The last normalization\<close>

lemma inf_signed_not_Fin [simp]: "inf_signed b \<noteq> Fin v" "Fin v \<noteq> inf_signed b"
  by (cases b; simp)+

lemma inf_signed_not_NaN [simp]: "inf_signed b \<noteq> NaN" "NaN \<noteq> inf_signed b"
  by (cases b; simp)+

lemma renorm_entry_range:
  assumes "fl_le lo x" and "fl_le x hi"
    and "fl_div (fl_sub x lo) (fl_sub hi lo) = Fin v"
  shows "0 \<le> v \<and> v \<le> 1"
proof (cases x)
  case (Fin a)
  show ?thesis
  proof (cases lo)
    case lo: (Fin l)
    show ?thesis
    proof (cases hi)
      case hi: (Fin h)
      from assms(1,2) have le: "l \<le> a" "a \<le> h" by (simp_all add: Fin lo hi)
      have d: "fl_div (overflow (a - l)) (overflow (h - l)) = Fin v"
        using assms(3) by (simp add: Fin lo hi fl_sub_def)
      show ?thesis
      proof (cases "overflow_threshold \<le> h - l")
        case True
        then have "overflow (h - l) = PInf" by (simp add: overflow_def)
        with d have "fl_div (overflow (a - l)) PInf = Fin v" by simp
        then have "v = 0" using overflow_cases [of "a - l"] le(1) by auto
        then show ?thesis by simp
      next
        case False
        have hl: "overflow (h - l) = Fin (h - l)"
          using False le overflow_threshold_pos by (intro overflow_Fin) linarith
        have al: "overflow (a - l) = Fin (a - l)"
          using False le overflow_threshold_pos by (intro overflow_Fin) linarith
        from d have nz: "h - l \<noteq> 0" and q: "overflow ((a - l) / (h - l)) = Fin v"
          by (auto simp: hl al split: if_splits)
        from q have "v = (a - l) / (h - l)" by (rule overflow_eq_Fin)
        with nz le show ?thesis by (simp add: divide_le_eq_1)
      qed
    next
      case PInf
      with assms(3) overflow_cases [of "a - l"] show ?thesis
        by (auto simp: Fin lo fl_sub_def)
    next
      case NInf
      with assms(2) show ?thesis by (simp add: Fin)
    next
      case NaN
      with assms(2) show ?thesis by (simp add: Fin)
    qed
  next
    case PInf
    with assms(1) show ?thesis by (simp add: Fin)
  next
    case NInf
    with assms(3) show ?thesis by (cases hi) (simp_all add: Fin fl_sub_def)
  next
    case NaN
    with assms(1) show ?thesis by simp
  qed
next
  case PInf
  with assms(2) have "hi = PInf" by (cases hi) simp_all
  with PInf assms(3) show ?thesis by (cases lo) (simp_all add: fl_sub_def)
next
  case NInf
  with assms(1) have "lo = NInf" by (cases lo) simp_all
  with NInf assms(3) show ?thesis by (simp add: fl_sub_def)
next
  case NaN
  with assms(1) show ?thesis by (cases lo) simp_all
qed

lemma renorm_entry_nan:
  "isnan x \<Longrightarrow> fl_div (fl_sub x lo) (fl_sub hi lo) = NaN"
  by (cases x) (simp_all add: fl_sub_def)

lemma renormalize_returns:
  assumes "elems r \<noteq> []"
  shows "\<exists>lo hi. nanmin (elems r) = Inr lo \<and> nanmax (elems r) = Inr hi \<and>
           (\<forall>y \<in> set (elems r). \<not> isnan y \<longrightarrow> fl_le lo y \<and> fl_le y hi) \<and>
           renormalize r = Inr (map_elems (\<lambda>x. fl_div (fl_sub x lo) (fl_sub hi lo)) r)"
proof -
  from nanmin_props [OF assms] obtain lo where
    lo: "nanmin (elems r) = Inr lo" "\<forall>y \<in> set (elems r). \<not> isnan y \<longrightarrow> fl_le lo y" by blast
  from nanmax_props [OF assms] obtain hi where
    hi: "nanmax (elems r) = Inr hi" "\<forall>y \<in> set (elems r). \<not> isnan y \<longrightarrow> fl_le y hi" by blast
  have "renormalize r = Inr (map_elems (\<lambda>x. fl_div (fl_sub x lo) (fl_sub hi lo)) r)"
    by (simp add: renormalize_def lo(1) hi(1))
  with lo hi show ?thesis by blast
qed

lemma renormalize_unit_range:
  assumes "renormalize r = Inr out" and "Fin v \<in> set (elems out)"
  shows "0 \<le> v \<and> v \<le> 1"
proof -
  have ne: "elems r \<noteq> []"
    using assms(1) by (cases "elems r") (simp_all add: renormalize_def)
  from renormalize_returns [OF ne] assms(1) obtain lo hi where
    b: "\<forall>y \<in> set (elems r). \<not> isnan y \<longrightarrow> fl_le lo y \<and> fl_le y hi" and
    o: "out = map_elems (\<lambda>x. fl_div (fl_sub x lo) (fl_sub hi lo)) r" by auto
  from assms(2) o obtain x where
    x: "x \<in> set (elems r)" "fl_div (fl_sub x lo) (fl_sub hi lo) = Fin v"
    by (auto simp: map_elems_def)
  have "\<not> isnan x" using renorm_entry_nan [of x lo hi] x(2) by auto
  with b x(1) have "fl_le lo x" "fl_le x hi" by auto
  then show ?thesis using x(2) by (rule renorm_entry_range)
qed


text \<open>
  C1: when the chosen scaling function returns an array with two distinct finite values,
  \<^verbatim>\<open>process_fits\<close> returns an array of the same shape whose finite entries all lie
  in \<open>[0, 1]\<close>. The statement is about any method for which the scaling call
  returns, so about each of \<^verbatim>\<open>linear\<close>, \<^verbatim>\<open>log\<close>, \<^verbatim>\<open>sqrt\<close>, \<^verbatim>\<open>hist_eq\<close>
  and \<^verbatim>\<open>asinh\<close>.
\<close>

theorem process_fits_unit_range:
  assumes "extract_frame data frame = Inr plane"
    and "scale_with scaling_method plane kw = Inr r"
    and "Fin a \<in> set (elems r)" and "Fin b \<in> set (elems r)" and "a \<noteq> b"
  shows "\<exists>out. process_fits data scaling_method frame kw = Inr out \<and>
           shape out = shape r \<and> length (elems out) = length (elems r) \<and>
           (\<forall>v. Fin v \<in> set (elems out) \<longrightarrow> 0 \<le> v \<and> v \<le> 1)"
proof -
  have ne: "elems r \<noteq> []" using assms(3) by auto
  from renormalize_returns [OF ne] obtain lo hi where
    o: "renormalize r = Inr (map_elems (\<lambda>x. fl_div (fl_sub x lo) (fl_sub hi lo)) r)" by blast
  let ?out = "map_elems (\<lambda>x. fl_div (fl_sub x lo) (fl_sub hi lo)) r"
  have p: "process_fits data scaling_method frame kw = Inr ?out"
    by (simp add: process_fits_def assms(1,2) o)
  have "shape ?out = shape r" "length (elems ?out) = length (elems r)"
    by (simp_all add: map_elems_def)
  moreover have "\<forall>v. Fin v \<in> set (elems ?out) \<longrightarrow> 0 \<le> v \<and> v \<le> 1"
    using renormalize_unit_range [OF o] by blast
  ultimately show ?thesis using p by blast
qed

theorem process_fits_unit_range_witness:
  "process_fits \<lparr>shape = [1, 3], elems = [Fin 0, Fin 5, Fin 10]\<rparr> ''linear'' 0 [] =
     Inr \<lparr>shape = [1, 3], elems = [Fin 0, Fin (1 / 2), Fin 1]\<rparr> \<and>
   (0::real) \<le> 1 / 2 \<and> (1 / 2 :: real) \<le> 1"
proof -
  let ?d = "\<lparr>shape = [1, 3], elems = [Fin 0, Fin 5, Fin 10]\<rparr>"
  let ?r = "\<lparr>shape = [1, 3], elems = [Fin 0, Fin (1 / 2), Fin 1]\<rparr>"
  have ex: "extract_frame ?d 0 = Inr ?d" by (simp add: extract_frame_def ndim_def)
  have sc: "scale_with ''linear'' ?d [] = Inr ?r"
    by (simp add: scale_with_no_kwargs linear_scaling_def extrema_range_def valid_data_def
        map_elems_def fl_sub_def np_fmin_def np_fmax_def clip_def np_minimum_def np_maximum_def)
  have m: "Fin 0 \<in> set (elems ?r)" "Fin 1 \<in> set (elems ?r)" "(0::real) \<noteq> 1" by simp_all
  from process_fits_unit_range [OF ex sc m] obtain out where
    out: "process_fits ?d ''linear'' 0 [] = Inr out"
      "\<forall>v. Fin v \<in> set (elems out) \<longrightarrow> 0 \<le> v \<and> v \<le> 1" by blast
  have ev: "process_fits ?d ''linear'' 0 [] = Inr ?r"
    unfolding process_fits_def ex and_then_Inr sc
    by (simp add: renormalize_def map_elems_def fl_sub_def np_fmin_def np_fmax_def)
  with out(1) have "out = ?r" by simp
  with out(2) have "(0::real) \<le> 1 / 2 \<and> (1 / 2 :: real) \<le> 1" by simp
  with ev show ?thesis by simp
qed

section \<open>Constant inputs\<close>

lemma and_then_eq_Inr: "and_then r f = Inr y \<longleftrightarrow> (\<exists>v. r = Inr v \<and> f v = Inr y)"
  by (cases r) simp_all

lemma linear_scaling_pointwise:
  assumes "linear_scaling data lo hi = Inr r"
  shows "\<exists>f. r = map_elems f data"
  using assms by (auto simp: linear_scaling_def and_then_eq_Inr)

lemma log_scaling_pointwise:
  assumes "log_scaling data lo hi = Inr r"
  shows "\<exists>f. r = map_elems f data"
  using assms by (auto simp: log_scaling_def and_then_eq_Inr)

lemma asinh_scaling_pointwise:
  assumes "asinh_scaling data lo hi k = Inr r"
  shows "\<exists>f. r = map_elems f data"
  using assms by (auto simp: asinh_scaling_def and_then_eq_Inr Let_def split: if_splits)

lemma sqrt_scaling_pointwise:
  assumes "sqrt_scaling data lo hi ps = Inr r"
  shows "\<exists>f. r = map_elems f data"
  using assms by (auto simp: sqrt_scaling_def and_then_eq_Inr)

lemma hist_eq_scaling_pointwise:
  assumes "hist_eq_scaling data = Inr r"
  shows "\<exists>f. r = map_elems f data"
proof -
  from assms have "r = map_elems
      (interp1 (butlast (arange 257)) (cdf_normalized (elems data))) data"
    by (auto simp: hist_eq_scaling_def and_then_eq_Inr interp_def map_elems_def split: if_splits)
  then show ?thesis by blast
qed

lemma scale_with_pointwise:
  assumes "scale_with scaling_method plane kw = Inr r"
  shows "\<exists>f. r = map_elems f plane"
proof -
  consider "scaling_method = ''asinh''" | "scaling_method = ''linear''"
    | "scaling_method = ''log''" | "scaling_method = ''sqrt''" | "scaling_method = ''hist_eq''"
    using assms by (auto simp: scale_with_def split: if_splits)
  then show ?thesis
  proof cases
    case 1
    with assms obtain lo hi k where "asinh_scaling plane lo hi k = Inr r"
      by (auto simp: scale_with_def call_asinh_def and_then_eq_Inr split: option.splits)
    then show ?thesis by (rule asinh_scaling_pointwise)
  next
    case 2
    with assms obtain lo hi where "linear_scaling plane lo hi = Inr r"
      by (auto simp: scale_with_def call_linear_def and_then_eq_Inr split: option.splits)
    then show ?thesis by (rule linear_scaling_pointwise)
  next
    case 3
    with assms obtain lo hi where "log_scaling plane lo hi = Inr r"
      by (auto simp: scale_with_def call_log_def and_then_eq_Inr split: option.splits)
    then show ?thesis by (rule log_scaling_pointwise)
  next
    case 4
    with assms obtain lo hi ps where "sqrt_scaling plane lo hi ps = Inr r"
      by (auto simp: scale_with_def call_sqrt_def and_then_eq_Inr split: option.splits)
    then show ?thesis by (rule sqrt_scaling_pointwise)
  next
    case 5
    with assms have "hist_eq_scaling plane = Inr r"
      by (auto simp: scale_with_def call_hist_eq_def split: option.splits)
    then show ?thesis by (rule hist_eq_scaling_pointwise)
  qed
qed


lemma foldl_fmin_replicate: "foldl np_fmin v (replicate n v) = v"
  by (induction n) (simp_all add: np_fmin_def)

lemma foldl_fmax_replicate: "foldl np_fmax v (replicate n v) = v"
  by (induction n) (simp_all add: np_fmax_def)

lemma nanmin_replicate: "0 < n \<Longrightarrow> nanmin (replicate n v) = Inr v"
  by (cases n) (simp_all add: foldl_fmin_replicate)

lemma nanmax_replicate: "0 < n \<Longrightarrow> nanmax (replicate n v) = Inr v"
  by (cases n) (simp_all add: foldl_fmax_replicate)

lemma renorm_same: "fl_div (fl_sub v v) (fl_sub v v) = NaN"
  by (cases v) (simp_all add: fl_sub_def)

lemma renormalize_constant:
  assumes "0 < n"
  shows "renormalize \<lparr>shape = s, elems = replicate n v\<rparr> =
           Inr \<lparr>shape = s, elems = replicate n NaN\<rparr>"
  using assms
  by (simp add: renormalize_def nanmin_replicate nanmax_replicate map_elems_def renorm_same)

lemma constant_list:
  assumes "\<forall>x \<in> set xs. x = c"
  shows "xs = replicate (length xs) c"
  using assms by (induction xs) simp_all

lemma renormalize_of_constant_plane:
  assumes "elems plane \<noteq> []" and "\<forall>x \<in> set (elems plane). x = c"
  shows "renormalize (map_elems f plane) =
           Inr \<lparr>shape = shape plane, elems = replicate (length (elems plane)) NaN\<rparr>"
proof -
  let ?n = "length (elems plane)"
  have n: "0 < ?n" using assms(1) by simp
  have "elems plane = replicate ?n c" by (rule constant_list [OF assms(2)])
  then have "map f (elems plane) = replicate ?n (f c)"
    by (metis map_replicate)
  then have "map_elems f plane = \<lparr>shape = shape plane, elems = replicate ?n (f c)\<rparr>"
    by (simp add: map_elems_def)
  then show ?thesis using renormalize_constant [OF n] by simp
qed

lemma length_cumsum_from: "length (cumsum_from a xs) = length xs"
  by (induction xs arbitrary: a) simp_all

lemma length_cdf_normalized: "length (cdf_normalized xs) = 256"
  by (simp add: cdf_normalized_def Let_def cumsum_def length_cumsum_from histogram_def arange_def)

lemma length_arange: "length (arange n) = n"
  by (simp add: arange_def)

lemma length_sample_points: "length (butlast (arange 257)) = 256"
  by (simp add: length_arange)

lemma hist_eq_scaling_returns:
  "hist_eq_scaling data =
     Inr (map_elems (interp1 (butlast (arange 257)) (cdf_normalized (elems data))) data)"
proof -
  have "butlast (arange 257) \<noteq> []"
    using length_sample_points by (metis length_0_conv zero_neq_numeral)
  then show ?thesis
    by (simp add: hist_eq_scaling_def interp_def length_cdf_normalized length_arange
        map_elems_def)
qed

lemma valid_data_finite_input:
  assumes "elems plane \<noteq> []" and "\<forall>x \<in> set (elems plane). x = Fin c"
  shows "valid_data plane \<noteq> []"
proof -
  obtain x xs where "elems plane = x # xs" using assms(1) by (cases "elems plane") auto
  with assms(2) show ?thesis by (simp add: valid_data_def)
qed

lemma extrema_range_returns:
  assumes "valid_data plane \<noteq> []"
  shows "\<exists>lo hi. extrema_range plane None None = Inr (lo, hi)"
proof -
  from nanmin_props [OF assms] nanmax_props [OF assms] show ?thesis
    by (auto simp: extrema_range_def)
qed

lemma percentile_range_returns:
  assumes "valid_data plane \<noteq> []"
  shows "\<exists>lo hi. percentile_range plane None None (1, 99) = Inr (lo, hi)"
  using assms by (simp add: percentile_range_def percentile_def Let_def)

lemma scale_with_returns:
  assumes "scaling_method \<in> {''asinh'', ''linear'', ''log'', ''sqrt'', ''hist_eq''}"
    and "valid_data plane \<noteq> []"
  shows "\<exists>r. scale_with scaling_method plane [] = Inr r"
proof -
  from extrema_range_returns [OF assms(2)] obtain lo hi where
    e: "extrema_range plane None None = Inr (lo, hi)" by blast
  from percentile_range_returns [OF assms(2)] obtain pl ph where
    p: "percentile_range plane None None (1, 99) = Inr (pl, ph)" by blast
  consider "scaling_method = ''asinh''" | "scaling_method = ''linear''"
    | "scaling_method = ''log''" | "scaling_method = ''sqrt''" | "scaling_method = ''hist_eq''"
    using assms(1) by (elim insertE emptyE)
  then show ?thesis
  proof cases
    case 1 then show ?thesis by (simp add: scale_with_no_kwargs asinh_scaling_def e)
  next
    case 2 then show ?thesis by (simp add: scale_with_no_kwargs linear_scaling_def e)
  next
    case 3 then show ?thesis by (simp add: scale_with_no_kwargs log_scaling_def e)
  next
    case 4 then show ?thesis by (simp add: scale_with_no_kwargs sqrt_scaling_def p)
  next
    case 5 then show ?thesis by (simp add: scale_with_no_kwargs hist_eq_scaling_returns)
  qed
qed


text \<open>
  C2: the code has no guard for a range of width zero. On the constant image
  of the one row \<open>[5, 5]\<close> \<^verbatim>\<open>linear_scaling\<close> divides 0 by 0, and so does the last normalization
  of \<^verbatim>\<open>process_fits\<close>: nothing is raised and every entry that comes back is NaN,
  where the docstring of \<^verbatim>\<open>linear_scaling\<close> promises "Scaled data with values between 0
  and 1" and the comments say "ensuring scaled data is within [0, 1]" and "normalize scaled
  data for display".
\<close>

theorem constant_image_linear_counterexample:
  "process_fits \<lparr>shape = [1, 2], elems = [Fin 5, Fin 5]\<rparr> ''linear'' 0 [] =
     Inr \<lparr>shape = [1, 2], elems = [NaN, NaN]\<rparr>"
  by (simp add: process_fits_def extract_frame_def ndim_def scale_with_no_kwargs
      linear_scaling_def extrema_range_def valid_data_def map_elems_def fl_sub_def np_fmin_def
      np_fmax_def clip_def np_minimum_def np_maximum_def renormalize_def)

text \<open>
  With parameters one call on a constant image does raise: \<^verbatim>\<open>asinh_scaling\<close> with
  both bounds passed and \<^verbatim>\<open>non_linear=0\<close> divides two Python floats by zero.
\<close>

lemma asinh_zero_non_linear_raises:
  "process_fits \<lparr>shape = [1, 2], elems = [Fin 5, Fin 5]\<rparr> ''asinh'' 0
     [(''scale_min'', KNum (Fin 5)), (''scale_max'', KNum (Fin 5)), (''non_linear'', KNum (Fin 0))]
   = Inl (ZeroDivisionError ''float division by zero'')"
  by (simp add: process_fits_def extract_frame_def ndim_def scale_with_def call_asinh_def
      unexpected_def params_of_def bound_arg_def number_arg_def asinh_scaling_def
      extrema_range_def)

text \<open>
  C2, for every constant image and each of the five methods: for an input whose entries are
  all the same finite value (and whose selected plane is not empty), \<^verbatim>\<open>process_fits\<close>
  called without method parameters raises nothing and returns an array of the plane's
  shape whose entries are all NaN; and with any method parameters, whenever it returns, it
  returns that same array.
\<close>

theorem constant_image_gives_nan:
  assumes "scaling_method \<in> {''asinh'', ''linear'', ''log'', ''sqrt'', ''hist_eq''}"
    and "\<forall>x \<in> set (elems data). x = Fin c"
    and "extract_frame data frame = Inr plane" and "elems plane \<noteq> []"
  shows "process_fits data scaling_method frame [] =
           Inr \<lparr>shape = shape plane, elems = replicate (length (elems plane)) NaN\<rparr> \<and>
         (\<forall>kw out. process_fits data scaling_method frame kw = Inr out \<longrightarrow>
            out = \<lparr>shape = shape plane, elems = replicate (length (elems plane)) NaN\<rparr>)"
proof -
  let ?nan = "\<lparr>shape = shape plane, elems = replicate (length (elems plane)) NaN\<rparr>"
  have const: "\<forall>x \<in> set (elems plane). x = Fin c"
    using extract_frame_subset [OF assms(3)] assms(2) by blast
  have any: "out = ?nan" if "process_fits data scaling_method frame kw = Inr out" for kw out
  proof -
    from that obtain r where r: "scale_with scaling_method plane kw = Inr r"
      and o: "renormalize r = Inr out"
      by (auto simp: process_fits_def assms(3) and_then_eq_Inr)
    from scale_with_pointwise [OF r] obtain f where "r = map_elems f plane" by blast
    with o renormalize_of_constant_plane [OF assms(4) const, of f] show ?thesis by simp
  qed
  have v: "valid_data plane \<noteq> []" by (rule valid_data_finite_input [OF assms(4) const])
  from scale_with_returns [OF assms(1) v] obtain r where
    r: "scale_with scaling_method plane [] = Inr r" by blast
  from scale_with_pointwise [OF r] obtain f where "r = map_elems f plane" by blast
  then have "renormalize r = Inr ?nan"
    using renormalize_of_constant_plane [OF assms(4) const, of f] by simp
  then have "process_fits data scaling_method frame [] = Inr ?nan"
    by (simp add: process_fits_def assms(3) r)
  with any show ?thesis by blast
qed

theorem constant_image_gives_nan_witness:
  "process_fits \<lparr>shape = [2, 2], elems = [Fin 7, Fin 7, Fin 7, Fin 7]\<rparr> ''hist_eq'' 0 [] =
     Inr \<lparr>shape = [2, 2], elems = [NaN, NaN, NaN, NaN]\<rparr>"
proof -
  let ?d = "\<lparr>shape = [2, 2], elems = [Fin 7, Fin 7, Fin 7, Fin 7]\<rparr>"
  have m: "''hist_eq'' \<in> {''asinh'', ''linear'', ''log'', ''sqrt'', ''hist_eq''}" by simp
  have c: "\<forall>x \<in> set (elems ?d). x = Fin 7" by simp
  have ex: "extract_frame ?d 0 = Inr ?d" by (simp add: extract_frame_def ndim_def)
  have ne: "elems ?d \<noteq> []" by simp
  from constant_image_gives_nan [OF m c ex ne]
  have "process_fits ?d ''hist_eq'' 0 [] =
          Inr \<lparr>shape = shape ?d, elems = replicate (length (elems ?d)) NaN\<rparr>" by blast
  then show ?thesis by (simp add: numeral_eq_Suc)
qed

section \<open>Percentiles of finite values\<close>

lemma finite_list_map_Fin:
  assumes "\<forall>x \<in> set xs. isfinite x"
  shows "map Fin (map the_fin xs) = xs"
  using assms
proof (induction xs)
  case Nil
  show ?case by simp
next
  case (Cons x xs)
  then show ?case by (cases x) simp_all
qed

lemma fl_key_Fin_le: "fl_key (Fin a) \<le> fl_key (Fin b) \<longleftrightarrow> a \<le> b"
  by (auto simp: less_eq_prod_def)

lemma insort_key_Fin:
  "insort_key fl_key (Fin a) (map Fin rs) = map Fin (insort a rs)"
  by (induction rs) (simp_all add: fl_key_Fin_le)

lemma sort_key_Fin: "sort_key fl_key (map Fin rs) = map Fin (sort rs)"
  by (induction rs) (simp_all add: sort_key_simps insort_key_Fin)

lemma lerp_same:
  assumes "\<bar>b\<bar> \<le> max_float"
  shows "lerp (Fin b) (Fin b) t = Fin b"
proof -
  have "overflow b = Fin b" using assms by (rule overflow_in_range)
  then show ?thesis by (simp add: lerp_def fl_sub_def)
qed

lemma lerp_Fin:
  assumes "a \<le> b" and "\<bar>a\<bar> \<le> max_float" and "\<bar>b\<bar> \<le> max_float" and "b - a \<le> max_float"
    and "0 \<le> t" and "t \<le> 1"
  shows "lerp (Fin a) (Fin b) t = Fin (a + (b - a) * t)"
proof -
  have d0: "0 \<le> b - a" using assms(1) by simp
  have d: "overflow (b - a) = Fin (b - a)"
    using d0 assms(4) by (intro overflow_in_range) simp
  have p1: "0 \<le> (b - a) * t" using d0 assms(5) by simp
  have q1: "(b - a) * t \<le> (b - a) * 1" using d0 assms(6) by (intro mult_left_mono) simp_all
  have m1: "overflow ((b - a) * t) = Fin ((b - a) * t)"
    using p1 q1 assms(4) by (intro overflow_in_range) simp
  have p2: "0 \<le> (b - a) * (1 - t)" using d0 assms(6) by simp
  have q2: "(b - a) * (1 - t) \<le> (b - a) * 1" using d0 assms(5) by (intro mult_left_mono) simp_all
  have m2: "overflow ((b - a) * (1 - t)) = Fin ((b - a) * (1 - t))"
    using p2 q2 assms(4) by (intro overflow_in_range) simp
  have r: "\<bar>a + (b - a) * t\<bar> \<le> max_float" using p1 q1 assms(2,3) by simp
  have r1: "overflow (a + (b - a) * t) = Fin (a + (b - a) * t)"
    using r by (rule overflow_in_range)
  have e: "b - (b - a) * (1 - t) = a + (b - a) * t" by (simp add: algebra_simps)
  have r2: "overflow (b - (b - a) * (1 - t)) = Fin (a + (b - a) * t)"
    unfolding e by (rule r1)
  have s1: "fl_sub (Fin b) (Fin a) = Fin (b - a)" using d by (simp add: fl_sub_def)
  show ?thesis
  proof (cases "1 / 2 \<le> t")
    case True
    have "lerp (Fin a) (Fin b) t = fl_sub (Fin b) (fl_mul (Fin (b - a)) (Fin (1 - t)))"
      using True by (simp only: lerp_def s1 if_True)
    also have "\<dots> = fl_sub (Fin b) (Fin ((b - a) * (1 - t)))" by (simp only: fl_mul.simps m2)
    also have "\<dots> = overflow (b - (b - a) * (1 - t))" by (simp add: fl_sub_def)
    finally show ?thesis by (simp only: r2)
  next
    case False
    have "lerp (Fin a) (Fin b) t = fl_add (Fin a) (fl_mul (Fin (b - a)) (Fin t))"
      using False by (simp only: lerp_def s1 if_False)
    also have "\<dots> = fl_add (Fin a) (Fin ((b - a) * t))" by (simp only: fl_mul.simps m1)
    also have "\<dots> = overflow (a + (b - a) * t)" by simp
    finally show ?thesis by (simp only: r1)
  qed
qed

lemma floor_index:
  assumes "0 \<le> (v::real)" and "v < real n - 1"
  shows "nat \<lfloor>v\<rfloor> + 1 < n" and "real (nat \<lfloor>v\<rfloor>) \<le> v"
proof -
  have f: "0 \<le> \<lfloor>v\<rfloor>" using assms(1) by simp
  then have "real (nat \<lfloor>v\<rfloor>) = of_int \<lfloor>v\<rfloor>" by simp
  also have "\<dots> \<le> v" by (rule of_int_floor_le)
  finally show le: "real (nat \<lfloor>v\<rfloor>) \<le> v" .
  with assms(2) have "real (nat \<lfloor>v\<rfloor>) < real n - 1" by linarith
  then show "nat \<lfloor>v\<rfloor> + 1 < n" by linarith
qed

lemma floor_fraction:
  assumes "0 \<le> (v::real)"
  shows "0 \<le> v - real (nat \<lfloor>v\<rfloor>)" and "v - real (nat \<lfloor>v\<rfloor>) \<le> 1"
proof -
  have f: "real (nat \<lfloor>v\<rfloor>) = of_int \<lfloor>v\<rfloor>" using assms by simp
  show "0 \<le> v - real (nat \<lfloor>v\<rfloor>)" unfolding f by simp
  have "v < of_int \<lfloor>v\<rfloor> + 1" by linarith
  then show "v - real (nat \<lfloor>v\<rfloor>) \<le> 1" unfolding f by linarith
qed

lemma quantile_sorted_Fin:
  assumes "s \<noteq> []" and "0 \<le> q" and "sorted s"
    and "\<forall>x \<in> set s. \<bar>x\<bar> \<le> max_float" and "last s - hd s \<le> max_float"
  shows "quantile_sorted (map Fin s) q = Fin (quantile_real s q)"
proof -
  define v where "v = q / 100 * (real (length s) - 1)"
  have n: "1 \<le> real (length s)" using assms(1) by (cases s) simp_all
  have nn: "\<not> isnan (last (map Fin s))" using assms(1) by (simp add: last_map)
  have v0: "0 \<le> v" unfolding v_def using assms(2) n by simp
  have qs: "quantile_sorted (map Fin s) q =
      (if real (length s) - 1 \<le> v then lerp (last (map Fin s)) (last (map Fin s)) (v + 1)
       else lerp (map Fin s ! nat \<lfloor>v\<rfloor>) (map Fin s ! (nat \<lfloor>v\<rfloor> + 1)) (v - real (nat \<lfloor>v\<rfloor>)))"
    using nn by (simp add: quantile_sorted_def Let_def v_def)
  have qr: "quantile_real s q =
      (if real (length s) - 1 \<le> v then last s
       else s ! nat \<lfloor>v\<rfloor> + (s ! (nat \<lfloor>v\<rfloor> + 1) - s ! nat \<lfloor>v\<rfloor>) * (v - real (nat \<lfloor>v\<rfloor>)))"
    by (simp add: quantile_real_def Let_def v_def)
  show ?thesis
  proof (cases "real (length s) - 1 \<le> v")
    case True
    have "\<bar>last s\<bar> \<le> max_float" using assms(1,4) by simp
    then have "lerp (Fin (last s)) (Fin (last s)) (v + 1) = Fin (last s)" by (rule lerp_same)
    then show ?thesis using True assms(1) by (simp add: qs qr last_map)
  next
    case False
    then have "v < real (length s) - 1" by simp
    from floor_index(1) [OF v0 this] have i: "nat \<lfloor>v\<rfloor> + 1 < length s" .
    then have i': "nat \<lfloor>v\<rfloor> < length s" by linarith
    let ?i = "nat \<lfloor>v\<rfloor>"
    have ab: "s ! ?i \<le> s ! (?i + 1)"
      using sorted_nth_mono [OF assms(3), of ?i "?i + 1"] i by simp
    have lo: "hd s \<le> s ! ?i"
      using sorted_nth_mono [OF assms(3), of 0 ?i] i' assms(1) by (simp add: hd_conv_nth)
    have hi: "s ! (?i + 1) \<le> last s"
      using sorted_nth_mono [OF assms(3), of "?i + 1" "length s - 1"] i assms(1)
      by (simp add: last_conv_nth)
    have sp: "s ! (?i + 1) - s ! ?i \<le> max_float" using lo hi assms(5) by linarith
    have ba: "\<bar>s ! ?i\<bar> \<le> max_float" "\<bar>s ! (?i + 1)\<bar> \<le> max_float"
      using assms(4) i i' by (simp_all only: nth_mem)
    have t: "0 \<le> v - real ?i" "v - real ?i \<le> 1" by (rule floor_fraction [OF v0])+
    have "lerp (Fin (s ! ?i)) (Fin (s ! (?i + 1))) (v - real ?i) =
            Fin (s ! ?i + (s ! (?i + 1) - s ! ?i) * (v - real ?i))"
      by (rule lerp_Fin [OF ab ba sp t])
    then show ?thesis using False i i' by (simp add: qs qr)
  qed
qed


lemma segment_bounds:
  fixes s :: "real list"
  assumes "sorted s" and "i + 1 < length s" and "0 \<le> t" and "t \<le> 1"
  shows "s ! i \<le> s ! i + (s ! (i + 1) - s ! i) * t"
    and "s ! i + (s ! (i + 1) - s ! i) * t \<le> s ! (i + 1)"
proof -
  have d: "0 \<le> s ! (i + 1) - s ! i"
    using sorted_nth_mono [OF assms(1), of i "i + 1"] assms(2) by simp
  then have "0 \<le> (s ! (i + 1) - s ! i) * t" using assms(3) by simp
  then show "s ! i \<le> s ! i + (s ! (i + 1) - s ! i) * t" by simp
  have "(s ! (i + 1) - s ! i) * t \<le> (s ! (i + 1) - s ! i) * 1"
    using d assms(4) by (intro mult_left_mono) simp_all
  then show "s ! i + (s ! (i + 1) - s ! i) * t \<le> s ! (i + 1)" by simp
qed

lemma quantile_real_index:
  "quantile_real s q = interp_index s (q / 100 * (real (length s) - 1))"
  by (simp add: quantile_real_def interp_index_def Let_def)

lemma interp_index_mono:
  assumes "sorted s" and "s \<noteq> []" and "0 \<le> v" and "v \<le> w"
  shows "interp_index s v \<le> interp_index s w"
proof -
  let ?n = "length s"
  let ?i = "nat \<lfloor>v\<rfloor>" and ?j = "nat \<lfloor>w\<rfloor>"
  have w0: "0 \<le> w" using assms(3,4) by simp
  have last: "last s = s ! (?n - 1)" using assms(2) by (rule last_conv_nth)
  show ?thesis
  proof (cases "real ?n - 1 \<le> w")
    case top: True
    show ?thesis
    proof (cases "real ?n - 1 \<le> v")
      case True
      with top show ?thesis by (simp add: interp_index_def)
    next
      case False
      then have lt: "v < real ?n - 1" by simp
      from floor_index(1) [OF assms(3) lt] have i: "?i + 1 < ?n" .
      have "interp_index s v \<le> s ! (?i + 1)"
        using False segment_bounds(2) [OF assms(1) i floor_fraction [OF assms(3)]]
        by (simp add: interp_index_def)
      also have "\<dots> \<le> s ! (?n - 1)"
        using sorted_nth_mono [OF assms(1), of "?i + 1" "?n - 1"] i by simp
      finally show ?thesis using top last by (simp add: interp_index_def)
    qed
  next
    case False
    then have wlt: "w < real ?n - 1" by simp
    with assms(4) have vlt: "v < real ?n - 1" by simp
    from floor_index(1) [OF assms(3) vlt] have i: "?i + 1 < ?n" .
    from floor_index(1) [OF w0 wlt] have j: "?j + 1 < ?n" .
    have ij: "?i \<le> ?j" using assms(4) by (simp add: floor_mono nat_mono)
    have pv: "interp_index s v = s ! ?i + (s ! (?i + 1) - s ! ?i) * (v - real ?i)"
      using vlt by (simp add: interp_index_def)
    have pw: "interp_index s w = s ! ?j + (s ! (?j + 1) - s ! ?j) * (w - real ?j)"
      using wlt by (simp add: interp_index_def)
    show ?thesis
    proof (cases "?i = ?j")
      case True
      have d: "0 \<le> s ! (?i + 1) - s ! ?i"
        using sorted_nth_mono [OF assms(1), of ?i "?i + 1"] i by simp
      have "(s ! (?i + 1) - s ! ?i) * (v - real ?i) \<le> (s ! (?i + 1) - s ! ?i) * (w - real ?i)"
        using d assms(4) by (intro mult_left_mono) simp_all
      then show ?thesis unfolding pv pw True [symmetric] by simp
    next
      case False
      with ij have lt: "?i + 1 \<le> ?j" by simp
      have "interp_index s v \<le> s ! (?i + 1)"
        unfolding pv by (rule segment_bounds(2) [OF assms(1) i floor_fraction [OF assms(3)]])
      also have "\<dots> \<le> s ! ?j"
        using sorted_nth_mono [OF assms(1) lt] j by simp
      also have "\<dots> \<le> interp_index s w"
        unfolding pw by (rule segment_bounds(1) [OF assms(1) j floor_fraction [OF w0]])
      finally show ?thesis .
    qed
  qed
qed

lemma interp_index_at_top:
  "real (length gs) - 1 \<le> a \<Longrightarrow> interp_index gs a = last gs"
  by (simp add: interp_index_def)

lemma interp_index_zero: "gs \<noteq> [] \<Longrightarrow> interp_index gs 0 = hd gs"
  by (cases gs) (auto simp: interp_index_def last_conv_nth)

lemma interp_index_bounds:
  assumes "sorted gs" and "gs \<noteq> []" and "0 \<le> v"
  shows "hd gs \<le> interp_index gs v \<and> interp_index gs v \<le> last gs"
proof -
  have "interp_index gs 0 \<le> interp_index gs v"
    using assms by (intro interp_index_mono) simp_all
  moreover have "interp_index gs v \<le> interp_index gs (max v (real (length gs)))"
    using assms by (intro interp_index_mono) simp_all
  moreover have "interp_index gs (max v (real (length gs))) = last gs"
    by (intro interp_index_at_top) linarith
  ultimately show ?thesis using assms(2) by (simp add: interp_index_zero)
qed

lemma quantile_real_bounds:
  assumes "sorted s" and "s \<noteq> []" and "0 \<le> q"
  shows "hd s \<le> quantile_real s q \<and> quantile_real s q \<le> last s"
proof -
  have n: "0 \<le> real (length s) - 1" using assms(2) by (cases s) simp_all
  have "0 \<le> q / 100 * (real (length s) - 1)" using assms(3) n by simp
  then show ?thesis
    unfolding quantile_real_index by (rule interp_index_bounds [OF assms(1,2)])
qed

lemma quantile_real_mono:
  assumes "sorted s" and "s \<noteq> []" and "0 \<le> q" and "q \<le> q'"
  shows "quantile_real s q \<le> quantile_real s q'"
proof -
  have n: "0 \<le> real (length s) - 1" using assms(2) by (cases s) simp_all
  have "0 \<le> q / 100 * (real (length s) - 1)" using assms(3) n by simp
  moreover have "q / 100 * (real (length s) - 1) \<le> q' / 100 * (real (length s) - 1)"
    using assms(4) n by (intro mult_right_mono) simp_all
  ultimately show ?thesis
    unfolding quantile_real_index by (rule interp_index_mono [OF assms(1,2)])
qed


lemma valid_data_finite: "\<forall>x \<in> set (valid_data data). isfinite x"
  by (simp add: valid_data_def)

lemma valid_data_nonempty:
  assumes "\<exists>x \<in> set (elems data). isfinite x"
  shows "valid_data data \<noteq> []"
  using assms by (auto simp: valid_data_def filter_empty_conv)

lemma valid_data_finite_only: "valid_data (finite_only data) = valid_data data"
  by (simp add: finite_only_def valid_data_def)

lemma percentile_range_returns_pair:
  assumes "\<exists>x \<in> set (elems data). isfinite x"
    and "0 \<le> q1" and "q1 \<le> 100" and "0 \<le> q2" and "q2 \<le> 100"
  shows "\<exists>lo hi. percentile_range data None None (q1, q2) = Inr (lo, hi)"
proof -
  have ne: "valid_data data \<noteq> []" by (rule valid_data_nonempty [OF assms(1)])
  then show ?thesis
    using assms(2-5) by (simp add: percentile_range_def percentile_def Let_def)
qed

lemma sorted_valid_data:
  assumes "\<exists>x \<in> set (elems data). isfinite x"
    and "\<forall>x \<in> set (elems data). float64 x"
    and "\<forall>u v. Fin u \<in> set (elems data) \<longrightarrow> Fin v \<in> set (elems data) \<longrightarrow> v - u \<le> max_float"
  shows "sort (map the_fin (valid_data data)) \<noteq> []"
    and "\<forall>x \<in> set (sort (map the_fin (valid_data data))). Fin x \<in> set (elems data)"
    and "\<forall>x \<in> set (sort (map the_fin (valid_data data))). \<bar>x\<bar> \<le> max_float"
    and "last (sort (map the_fin (valid_data data))) - hd (sort (map the_fin (valid_data data)))
           \<le> max_float"
proof -
  let ?rs = "sort (map the_fin (valid_data data))"
  have ne: "valid_data data \<noteq> []" by (rule valid_data_nonempty [OF assms(1)])
  then show sne: "?rs \<noteq> []" by (metis length_0_conv length_map length_sort)
  have v: "map Fin (map the_fin (valid_data data)) = valid_data data"
    by (rule finite_list_map_Fin [OF valid_data_finite])
  show mem: "\<forall>x \<in> set ?rs. Fin x \<in> set (elems data)"
  proof
    fix x assume "x \<in> set ?rs"
    then have "x \<in> set (map the_fin (valid_data data))" by simp
    then have "Fin x \<in> set (map Fin (map the_fin (valid_data data)))" by auto
    then have "Fin x \<in> set (valid_data data)" by (simp only: v)
    then show "Fin x \<in> set (elems data)" by (simp add: valid_data_def)
  qed
  show "\<forall>x \<in> set ?rs. \<bar>x\<bar> \<le> max_float"
  proof
    fix x assume "x \<in> set ?rs"
    with mem have "Fin x \<in> set (elems data)" by blast
    with assms(2) have "float64 (Fin x)" by blast
    then show "\<bar>x\<bar> \<le> max_float" by simp
  qed
  have "hd ?rs \<in> set ?rs" "last ?rs \<in> set ?rs"
    using sne by (rule hd_in_set, rule last_in_set)
  with mem have "Fin (hd ?rs) \<in> set (elems data)" "Fin (last ?rs) \<in> set (elems data)"
    by blast+
  with assms(3) show "last ?rs - hd ?rs \<le> max_float" by blast
qed

lemma percentile_range_finite:
  assumes "\<exists>x \<in> set (elems data). isfinite x"
    and "\<forall>x \<in> set (elems data). float64 x"
    and "\<forall>u v. Fin u \<in> set (elems data) \<longrightarrow> Fin v \<in> set (elems data) \<longrightarrow> v - u \<le> max_float"
    and "0 \<le> q1" and "q1 \<le> 100" and "0 \<le> q2" and "q2 \<le> 100"
  shows "percentile_range data None None (q1, q2) =
           Inr (Fin (quantile_real (sort (map the_fin (valid_data data))) q1),
                Fin (quantile_real (sort (map the_fin (valid_data data))) q2))"
proof -
  let ?rs = "map the_fin (valid_data data)"
  have ne: "valid_data data \<noteq> []" by (rule valid_data_nonempty [OF assms(1)])
  have v: "valid_data data = map Fin ?rs"
    using finite_list_map_Fin [OF valid_data_finite] by simp
  have srt: "sort_key fl_key (valid_data data) = map Fin (sort ?rs)"
    using sort_key_Fin [of ?rs] v by simp
  note sv = sorted_valid_data [OF assms(1-3)]
  have s: "sorted (sort ?rs)" by simp
  have q1: "quantile_sorted (map Fin (sort ?rs)) q1 = Fin (quantile_real (sort ?rs) q1)"
    by (rule quantile_sorted_Fin [OF sv(1) assms(4) s sv(3) sv(4)])
  have q2: "quantile_sorted (map Fin (sort ?rs)) q2 = Fin (quantile_real (sort ?rs) q2)"
    by (rule quantile_sorted_Fin [OF sv(1) assms(6) s sv(3) sv(4)])
  have "percentile (valid_data data) (q1, q2) =
      Inr (quantile_sorted (map Fin (sort ?rs)) q1, quantile_sorted (map Fin (sort ?rs)) q2)"
    using assms(4-7) ne by (simp add: percentile_def srt Let_def)
  then show ?thesis
    by (simp add: percentile_range_def q1 q2)
qed

lemma extrema_range_finite:
  assumes "\<exists>x \<in> set (elems data). isfinite x"
  shows "\<exists>lo hi. extrema_range data None None = Inr (Fin lo, Fin hi) \<and>
           Fin lo \<in> set (elems data) \<and> Fin hi \<in> set (elems data) \<and>
           (\<forall>v. Fin v \<in> set (elems data) \<longrightarrow> lo \<le> v \<and> v \<le> hi)"
proof -
  have ne: "valid_data data \<noteq> []" by (rule valid_data_nonempty [OF assms])
  from nanmin_props [OF ne] obtain m where
    m: "nanmin (valid_data data) = Inr m" "m \<in> set (valid_data data)"
       "\<forall>y \<in> set (valid_data data). \<not> isnan y \<longrightarrow> fl_le m y" by blast
  from nanmax_props [OF ne] obtain M where
    M: "nanmax (valid_data data) = Inr M" "M \<in> set (valid_data data)"
       "\<forall>y \<in> set (valid_data data). \<not> isnan y \<longrightarrow> fl_le y M" by blast
  from m(2) valid_data_finite have "isfinite m" by blast
  then obtain lo where lo: "m = Fin lo" by (cases m) simp_all
  from M(2) valid_data_finite have "isfinite M" by blast
  then obtain hi where hi: "M = Fin hi" by (cases M) simp_all
  have mem: "Fin lo \<in> set (elems data)" "Fin hi \<in> set (elems data)"
    using m(2) M(2) lo hi by (auto simp: valid_data_def)
  have bnd: "lo \<le> v \<and> v \<le> hi" if "Fin v \<in> set (elems data)" for v
  proof -
    from that have "Fin v \<in> set (valid_data data)" by (simp add: valid_data_def)
    with m(3) M(3) lo hi show ?thesis by fastforce
  qed
  have "extrema_range data None None = Inr (Fin lo, Fin hi)"
    by (simp add: extrema_range_def m(1) M(1) lo hi)
  with mem bnd show ?thesis by blast
qed


text \<open>
  C7: for an input with at least one finite entry, the bounds derived without override are
  those derived from the same array with the non-finite entries removed: the least and the
  greatest finite entry in \<^verbatim>\<open>linear_scaling\<close>, \<^verbatim>\<open>log_scaling\<close> and
  \<^verbatim>\<open>asinh_scaling\<close>, the percentiles of the finite entries in \<^verbatim>\<open>sqrt_scaling\<close>.
  The extrema are finite numbers; so are the percentiles when the entries are float64
  values whose differences do not overflow.
\<close>

theorem range_ignores_non_finite_entries:
  assumes "\<exists>x \<in> set (elems data). isfinite x"
    and "0 \<le> q1" and "q1 \<le> 100" and "0 \<le> q2" and "q2 \<le> 100"
  shows "(\<exists>lo hi. extrema_range data None None = Inr (Fin lo, Fin hi) \<and>
            extrema_range (finite_only data) None None = Inr (Fin lo, Fin hi) \<and>
            Fin lo \<in> set (elems data) \<and> Fin hi \<in> set (elems data) \<and>
            (\<forall>v. Fin v \<in> set (elems data) \<longrightarrow> lo \<le> v \<and> v \<le> hi)) \<and>
         (\<exists>lo hi. percentile_range data None None (q1, q2) = Inr (lo, hi) \<and>
            percentile_range (finite_only data) None None (q1, q2) = Inr (lo, hi) \<and>
            ((\<forall>x \<in> set (elems data). float64 x) \<and>
             (\<forall>u v. Fin u \<in> set (elems data) \<longrightarrow> Fin v \<in> set (elems data) \<longrightarrow>
                v - u \<le> max_float) \<longrightarrow>
             isfinite lo \<and> isfinite hi))"
proof -
  have e: "extrema_range (finite_only data) None None = extrema_range data None None"
    by (simp add: extrema_range_def valid_data_finite_only)
  have p: "percentile_range (finite_only data) None None (q1, q2) =
           percentile_range data None None (q1, q2)"
    by (simp add: percentile_range_def valid_data_finite_only)
  from extrema_range_finite [OF assms(1)] obtain lo hi where
    x: "extrema_range data None None = Inr (Fin lo, Fin hi)"
      "Fin lo \<in> set (elems data)" "Fin hi \<in> set (elems data)"
      "\<forall>v. Fin v \<in> set (elems data) \<longrightarrow> lo \<le> v \<and> v \<le> hi" by blast
  have x': "extrema_range (finite_only data) None None = Inr (Fin lo, Fin hi)"
    unfolding e by (rule x(1))
  have 1: "\<exists>lo hi. extrema_range data None None = Inr (Fin lo, Fin hi) \<and>
            extrema_range (finite_only data) None None = Inr (Fin lo, Fin hi) \<and>
            Fin lo \<in> set (elems data) \<and> Fin hi \<in> set (elems data) \<and>
            (\<forall>v. Fin v \<in> set (elems data) \<longrightarrow> lo \<le> v \<and> v \<le> hi)"
    using x x' by blast
  from percentile_range_returns_pair [OF assms] obtain pl ph where
    y: "percentile_range data None None (q1, q2) = Inr (pl, ph)" by blast
  have y': "percentile_range (finite_only data) None None (q1, q2) = Inr (pl, ph)"
    unfolding p by (rule y)
  have f: "isfinite pl \<and> isfinite ph"
    if "\<forall>x \<in> set (elems data). float64 x"
      and "\<forall>u v. Fin u \<in> set (elems data) \<longrightarrow> Fin v \<in> set (elems data) \<longrightarrow> v - u \<le> max_float"
    using percentile_range_finite [OF assms(1) that assms(2-5)] y by simp
  have 2: "\<exists>lo hi. percentile_range data None None (q1, q2) = Inr (lo, hi) \<and>
            percentile_range (finite_only data) None None (q1, q2) = Inr (lo, hi) \<and>
            ((\<forall>x \<in> set (elems data). float64 x) \<and>
             (\<forall>u v. Fin u \<in> set (elems data) \<longrightarrow> Fin v \<in> set (elems data) \<longrightarrow>
                v - u \<le> max_float) \<longrightarrow>
             isfinite lo \<and> isfinite hi)"
    using y y' f by blast
  from 1 2 show ?thesis by (rule conjI)
qed

theorem range_ignores_non_finite_entries_witness:
  "extrema_range \<lparr>shape = [2, 2], elems = [NaN, Fin 3, PInf, Fin 1]\<rparr> None None =
     extrema_range (finite_only \<lparr>shape = [2, 2], elems = [NaN, Fin 3, PInf, Fin 1]\<rparr>) None None \<and>
   percentile_range \<lparr>shape = [2, 2], elems = [NaN, Fin 3, PInf, Fin 1]\<rparr> None None (1, 99) =
     percentile_range (finite_only \<lparr>shape = [2, 2], elems = [NaN, Fin 3, PInf, Fin 1]\<rparr>)
       None None (1, 99) \<and>
   (\<exists>lo hi. percentile_range \<lparr>shape = [2, 2], elems = [NaN, Fin 3, PInf, Fin 1]\<rparr>
              None None (1, 99) = Inr (Fin lo, Fin hi))"
proof -
  let ?d = "\<lparr>shape = [2, 2], elems = [NaN, Fin 3, PInf, Fin 1]\<rparr>"
  have f: "\<exists>x \<in> set (elems ?d). isfinite x" by simp
  have m: "(3::real) \<le> max_float" using max_float_ge_million by linarith
  have r: "\<forall>x \<in> set (elems ?d). float64 x" using m by simp
  have sp: "\<forall>u v. Fin u \<in> set (elems ?d) \<longrightarrow> Fin v \<in> set (elems ?d) \<longrightarrow> v - u \<le> max_float"
    using m by auto
  from range_ignores_non_finite_entries [OF f, of 1 99] obtain lo hi lo' hi' where
    e: "extrema_range ?d None None = Inr (Fin lo, Fin hi)"
      "extrema_range (finite_only ?d) None None = Inr (Fin lo, Fin hi)"
      "percentile_range ?d None None (1, 99) = Inr (lo', hi')"
      "percentile_range (finite_only ?d) None None (1, 99) = Inr (lo', hi')"
    and i: "(\<forall>x \<in> set (elems ?d). float64 x) \<and>
       (\<forall>u v. Fin u \<in> set (elems ?d) \<longrightarrow> Fin v \<in> set (elems ?d) \<longrightarrow> v - u \<le> max_float) \<longrightarrow>
       isfinite lo' \<and> isfinite hi'"
    by force
  from i r sp have "isfinite lo'" "isfinite hi'" by blast+
  then obtain a b where "lo' = Fin a" "hi' = Fin b" by (cases lo'; cases hi') simp_all
  with e show ?thesis by simp
qed

text \<open>
  C9, as the claim states it, fails on finite data whose spread overflows. For the two
  entries \<open>-2^1023\<close> and \<open>2^1023\<close> the difference \<open>b - a\<close> that
  \<^verbatim>\<open>np.percentile\<close> interpolates with is infinite. The percentiles 0 and 100 are NaN
  and \<open>2^1023\<close>, so the range from \<open>(0, 100)\<close> is NaN; the percentiles 1 and 99 are
  \<open>+inf\<close> and \<open>-inf\<close>, so the range from \<open>(1, 99)\<close> is \<open>-inf\<close>; and
  \<open>-inf \<le> NaN\<close> is false.
\<close>

theorem wider_percentiles_overflow_counterexample:
  "percentile_range \<lparr>shape = [1, 2], elems = [Fin (- huge), Fin huge]\<rparr> None None (0, 100) =
     Inr (NaN, Fin huge) \<and>
   percentile_range \<lparr>shape = [1, 2], elems = [Fin (- huge), Fin huge]\<rparr> None None (1, 99) =
     Inr (PInf, NInf) \<and>
   fl_sub (Fin huge) NaN = NaN \<and> fl_sub NInf PInf = NInf \<and> \<not> fl_le NInf NaN"
proof -
  let ?d = "\<lparr>shape = [1, 2], elems = [Fin (- huge), Fin huge]\<rparr>"
  have v: "valid_data ?d = map Fin [- huge, huge]" by (simp add: valid_data_def)
  have "sort [- huge, huge] = [- huge, huge]" using huge_pos by simp
  then have srt: "sort_key fl_key (valid_data ?d) = [Fin (- huge), Fin huge]"
    unfolding v sort_key_Fin by simp
  have d2: "overflow (2 * huge) = PInf" using huge_spread_overflows by simp
  have d: "fl_sub (Fin huge) (Fin (- huge)) = PInf"
    using d2 by (simp add: fl_sub_def)
  have h0: "huge \<noteq> 0" using huge_pos by simp
  have l: "lerp (Fin huge) (Fin huge) t = Fin huge" for t
    by (rule lerp_same [OF huge_float64(1)])
  have q0: "quantile_sorted [Fin (- huge), Fin huge] 0 = NaN"
    by (simp add: quantile_sorted_def Let_def lerp_def d)
  have q100: "quantile_sorted [Fin (- huge), Fin huge] 100 = Fin huge"
    by (simp add: quantile_sorted_def Let_def l)
  have f1: "\<lfloor>1 / 100 :: real\<rfloor> = 0" "\<lfloor>99 / 100 :: real\<rfloor> = 0" by simp_all
  have q1: "quantile_sorted [Fin (- huge), Fin huge] 1 = PInf"
    by (simp add: quantile_sorted_def Let_def lerp_def d f1)
  have q99: "quantile_sorted [Fin (- huge), Fin huge] 99 = NInf"
    by (simp add: quantile_sorted_def Let_def lerp_def d2 f1 fl_sub_def)
  have a: "percentile_range ?d None None (0, 100) = Inr (NaN, Fin huge)"
    unfolding percentile_range_def percentile_def Let_def srt
    by (simp add: q0 q100 valid_data_def)
  have b: "percentile_range ?d None None (1, 99) = Inr (PInf, NInf)"
    unfolding percentile_range_def percentile_def Let_def srt
    by (simp add: q1 q99 valid_data_def)
  from a b show ?thesis by (simp add: fl_sub_def)
qed

text \<open>
  C9, amended: for an input with at least one finite entry, whose entries are float64
  values and whose finite entries do not differ by more than the largest float64, the
  percentiles are finite numbers, the range \<open>scale_max - scale_min\<close> is their
  difference, and the range that \<^verbatim>\<open>sqrt_scaling\<close> derives from a percentile interval
  \<open>(a, b)\<close> is at least the range it derives from an interval \<open>(c, d)\<close> inside it.
\<close>

theorem wider_percentiles_wider_range:
  assumes "\<exists>x \<in> set (elems data). isfinite x"
    and "\<forall>x \<in> set (elems data). float64 x"
    and "\<forall>u v. Fin u \<in> set (elems data) \<longrightarrow> Fin v \<in> set (elems data) \<longrightarrow> v - u \<le> max_float"
    and "0 \<le> a" and "a \<le> c" and "c \<le> d" and "d \<le> b" and "b \<le> 100"
  shows "\<exists>lo hi lo' hi'.
           percentile_range data None None (a, b) = Inr (Fin lo, Fin hi) \<and>
           percentile_range data None None (c, d) = Inr (Fin lo', Fin hi') \<and>
           fl_sub (Fin hi) (Fin lo) = Fin (hi - lo) \<and>
           fl_sub (Fin hi') (Fin lo') = Fin (hi' - lo') \<and>
           hi' - lo' \<le> hi - lo"
proof -
  let ?s = "sort (map the_fin (valid_data data))"
  note sv = sorted_valid_data [OF assms(1-3)]
  have ne: "?s \<noteq> []" by (rule sv(1))
  have srt: "sorted ?s" by simp
  have c0: "0 \<le> c" and d0: "0 \<le> d" and b0: "0 \<le> b" using assms(4-7) by linarith+
  have c100: "c \<le> 100" and d100: "d \<le> 100" and a100: "a \<le> 100"
    using assms(5-8) by linarith+
  have wide: "percentile_range data None None (a, b) =
      Inr (Fin (quantile_real ?s a), Fin (quantile_real ?s b))"
    by (rule percentile_range_finite [OF assms(1-3) assms(4) a100 b0 assms(8)])
  have narrow: "percentile_range data None None (c, d) =
      Inr (Fin (quantile_real ?s c), Fin (quantile_real ?s d))"
    by (rule percentile_range_finite [OF assms(1-3) c0 c100 d0 d100])
  have ac: "quantile_real ?s a \<le> quantile_real ?s c"
    by (rule quantile_real_mono [OF srt ne assms(4) assms(5)])
  have cd: "quantile_real ?s c \<le> quantile_real ?s d"
    by (rule quantile_real_mono [OF srt ne c0 assms(6)])
  have db: "quantile_real ?s d \<le> quantile_real ?s b"
    by (rule quantile_real_mono [OF srt ne d0 assms(7)])
  have lo: "hd ?s \<le> quantile_real ?s a"
    using quantile_real_bounds [OF srt ne assms(4)] by blast
  have hi: "quantile_real ?s b \<le> last ?s"
    using quantile_real_bounds [OF srt ne b0] by blast
  have w: "\<bar>quantile_real ?s b - quantile_real ?s a\<bar> \<le> max_float"
    using lo hi ac cd db sv(4) by linarith
  have n: "\<bar>quantile_real ?s d - quantile_real ?s c\<bar> \<le> max_float"
    using lo hi ac cd db sv(4) by linarith
  have rw: "fl_sub (Fin (quantile_real ?s b)) (Fin (quantile_real ?s a)) =
      Fin (quantile_real ?s b - quantile_real ?s a)"
    using overflow_in_range [OF w] by (simp add: fl_sub_def)
  have rn: "fl_sub (Fin (quantile_real ?s d)) (Fin (quantile_real ?s c)) =
      Fin (quantile_real ?s d - quantile_real ?s c)"
    using overflow_in_range [OF n] by (simp add: fl_sub_def)
  have "quantile_real ?s d - quantile_real ?s c \<le>
      quantile_real ?s b - quantile_real ?s a" using ac db by linarith
  with wide narrow rw rn show ?thesis by blast
qed

theorem wider_percentiles_wider_range_witness:
  "\<exists>lo hi lo' hi'.
     percentile_range \<lparr>shape = [2, 2], elems = [Fin 0, Fin 10, NaN, Fin 4]\<rparr> None None (0, 100)
       = Inr (Fin lo, Fin hi) \<and>
     percentile_range \<lparr>shape = [2, 2], elems = [Fin 0, Fin 10, NaN, Fin 4]\<rparr> None None (1, 99)
       = Inr (Fin lo', Fin hi') \<and>
     fl_sub (Fin hi) (Fin lo) = Fin (hi - lo) \<and>
     fl_sub (Fin hi') (Fin lo') = Fin (hi' - lo') \<and>
     hi' - lo' \<le> hi - lo"
proof -
  let ?d = "\<lparr>shape = [2, 2], elems = [Fin 0, Fin 10, NaN, Fin 4]\<rparr>"
  have f: "\<exists>x \<in> set (elems ?d). isfinite x" by simp
  have m: "(10::real) \<le> max_float" using max_float_ge_million by linarith
  have r: "\<forall>x \<in> set (elems ?d). float64 x" using m by simp
  have sp: "\<forall>u v. Fin u \<in> set (elems ?d) \<longrightarrow> Fin v \<in> set (elems ?d) \<longrightarrow> v - u \<le> max_float"
    using m by auto
  show ?thesis
    by (rule wider_percentiles_wider_range [OF f r sp]) simp_all
qed

section \<open>The cumulative histogram\<close>

lemma length_histogram: "length (histogram xs (arange 257)) = 256"
  by (simp add: histogram_def arange_def)

lemma arange_nth: "i < n \<Longrightarrow> arange n ! i = real i"
  by (simp add: arange_def)

lemma in_bin_arange:
  assumes "i < 256"
  shows "in_bin (arange 257) i x =
           (fl_le (Fin (real i)) x \<and>
            (if i = 255 then fl_le x (Fin 256) else fl_less x (Fin (real i + 1))))"
proof -
  have a: "arange 257 ! i = real i" "arange 257 ! (i + 1) = real i + 1"
    using assms by (simp_all add: arange_nth)
  have l: "length (arange 257) = 257" by (simp add: arange_def)
  have c: "(i + 2 = 257) = (i = 255)" by arith
  show ?thesis unfolding in_bin_def a l c using assms by auto
qed

lemma in_bin_range:
  assumes "i < 256" and "in_bin (arange 257) i x"
  shows "fl_le (Fin 0) x \<and> fl_le x (Fin 256)"
proof (cases x)
  case (Fin a)
  have "real i \<le> a" using assms Fin by (simp add: in_bin_arange)
  moreover have "a \<le> 256"
    using assms Fin by (cases "i = 255") (simp_all add: in_bin_arange)
  ultimately show ?thesis using Fin by simp
qed (use assms in \<open>simp_all add: in_bin_arange split: if_splits\<close>)

lemma range_in_bin:
  assumes "fl_le (Fin 0) x" and "fl_le x (Fin 256)"
  shows "\<exists>i<256. in_bin (arange 257) i x"
proof -
  from assms obtain a where x: "x = Fin a" and a: "0 \<le> a" "a \<le> 256"
    by (cases x) simp_all
  show ?thesis
  proof (cases "255 \<le> a")
    case True
    then have "in_bin (arange 257) 255 x" using x a by (simp add: in_bin_arange)
    then show ?thesis by (intro exI [of _ "255::nat"]) simp
  next
    case False
    let ?i = "nat \<lfloor>a\<rfloor>"
    have i: "real ?i \<le> a" "a < real ?i + 1" using a(1) by linarith+
    have "?i < 255" using False i(1) a(1) by linarith
    then have "?i < 256" "?i \<noteq> 255" by simp_all
    then have "in_bin (arange 257) ?i x" using x i by (simp add: in_bin_arange)
    then show ?thesis using \<open>?i < 256\<close> by blast
  qed
qed

lemma histogram_nth:
  "i < 256 \<Longrightarrow>
     histogram xs (arange 257) ! i = length (filter (in_bin (arange 257) i) xs)"
  by (simp add: histogram_def arange_def)

lemma count_le_total: "(x::nat) \<in> set xs \<Longrightarrow> x \<le> sum_list xs"
  by (induction xs) auto

lemma histogram_total_pos:
  assumes "z \<in> set xs" and "fl_le (Fin 0) z" and "fl_le z (Fin 256)"
  shows "0 < sum_list (histogram xs (arange 257))"
proof -
  from range_in_bin [OF assms(2,3)] obtain i where
    i: "i < 256" "in_bin (arange 257) i z" by blast
  have "z \<in> set (filter (in_bin (arange 257) i) xs)" using assms(1) i(2) by simp
  then have "0 < length (filter (in_bin (arange 257) i) xs)"
    by (metis length_pos_if_in_set)
  then have p: "0 < histogram xs (arange 257) ! i" using i(1) by (simp add: histogram_nth)
  have "histogram xs (arange 257) ! i \<in> set (histogram xs (arange 257))"
    using i(1) by (simp add: length_histogram)
  then have "histogram xs (arange 257) ! i \<le> sum_list (histogram xs (arange 257))"
    by (rule count_le_total)
  with p show ?thesis by linarith
qed

lemma histogram_all_zero:
  assumes "\<forall>z \<in> set xs. \<not> (fl_le (Fin 0) z \<and> fl_le z (Fin 256))"
  shows "histogram xs (arange 257) = replicate 256 0"
proof (rule nth_equalityI)
  show "length (histogram xs (arange 257)) = length (replicate 256 (0::nat))"
    by (simp add: length_histogram)
next
  fix i assume "i < length (histogram xs (arange 257))"
  then have i: "i < 256" by (simp add: length_histogram)
  have "filter (in_bin (arange 257) i) xs = []"
    using assms in_bin_range [OF i] by (auto simp: filter_empty_conv)
  then show "histogram xs (arange 257) ! i = replicate 256 (0::nat) ! i"
    using i by (simp add: histogram_nth)
qed

lemma cumsum_from_bounds:
  "c \<in> set (cumsum_from a xs) \<Longrightarrow> a \<le> c \<and> c \<le> a + sum_list xs"
proof (induction xs arbitrary: a)
  case Nil
  then show ?case by simp
next
  case (Cons x xs)
  then show ?case by fastforce
qed

lemma cumsum_from_sorted: "sorted (cumsum_from a xs)"
proof (induction xs arbitrary: a)
  case Nil
  then show ?case by simp
next
  case (Cons x xs)
  have "\<forall>c \<in> set (cumsum_from (a + x) xs). a + x \<le> c"
    using cumsum_from_bounds by blast
  then show ?case using Cons.IH by simp
qed

lemma cumsum_from_last:
  "xs \<noteq> [] \<Longrightarrow> last (cumsum_from a xs) = a + sum_list xs"
proof (induction xs arbitrary: a)
  case Nil
  then show ?case by simp
next
  case (Cons x xs)
  then show ?case by (cases xs) simp_all
qed

lemma cumsum_from_replicate_zero: "cumsum_from a (replicate n 0) = replicate n a"
  by (induction n) simp_all

lemma max_count_ge: "x \<in> set xs \<Longrightarrow> x \<le> max_count xs"
  unfolding max_count_def by (induction xs) auto

lemma max_count_le: "\<forall>x \<in> set xs. x \<le> b \<Longrightarrow> max_count xs \<le> b"
  unfolding max_count_def by (induction xs) auto

lemma max_count_replicate: "max_count (replicate n a) = (if n = 0 then 0 else a)"
  unfolding max_count_def by (induction n) auto

lemma cumsum_from_ne: "xs \<noteq> [] \<Longrightarrow> cumsum_from a xs \<noteq> []"
  by (cases xs) simp_all

lemma max_count_cumsum:
  assumes "xs \<noteq> []"
  shows "max_count (cumsum xs) = sum_list xs"
proof (rule antisym)
  show "max_count (cumsum xs) \<le> sum_list xs"
    using cumsum_from_bounds [of _ 0 xs] by (intro max_count_le) (simp add: cumsum_def)
next
  have "last (cumsum xs) \<in> set (cumsum xs)"
    using assms by (simp add: cumsum_def cumsum_from_ne)
  then have "last (cumsum xs) \<le> max_count (cumsum xs)" by (rule max_count_ge)
  then show "sum_list xs \<le> max_count (cumsum xs)"
    using assms by (simp add: cumsum_def cumsum_from_last)
qed

lemma max_count_le_total: "max_count xs \<le> sum_list xs"
  by (intro max_count_le ballI count_le_total)

section \<open>Interpolation between sample points\<close>

lemma interp_seg_Fin:
  assumes "x1 - x0 = 1" and "0 \<le> a - x0" and "a - x0 \<le> 1"
    and "\<bar>f0\<bar> \<le> 2 ^ 100" and "\<bar>f1\<bar> \<le> 2 ^ 100"
  shows "interp_seg (Fin a) x0 (Fin f0) x1 (Fin f1) = Fin ((f1 - f0) * (a - x0) + f0)"
proof -
  have b1: "\<bar>f1 - f0\<bar> \<le> 2 ^ 101" using assms(4,5) by simp
  have d: "overflow (f1 - f0) = Fin (f1 - f0)" using b1 by (rule overflow_pow2) simp
  have sl: "fl_div (fl_sub (Fin f1) (Fin f0)) (Fin (x1 - x0)) = Fin (f1 - f0)"
    using d by (simp add: fl_sub_def assms(1))
  have t: "overflow (a - x0) = Fin (a - x0)" using assms(2,3) by (intro overflow_small) simp
  have "\<bar>(f1 - f0) * (a - x0)\<bar> \<le> \<bar>f1 - f0\<bar> * 1"
    unfolding abs_mult using assms(2,3) by (intro mult_left_mono) simp_all
  then have b2: "\<bar>(f1 - f0) * (a - x0)\<bar> \<le> 2 ^ 101" using b1 by simp
  have m: "overflow ((f1 - f0) * (a - x0)) = Fin ((f1 - f0) * (a - x0))"
    using b2 by (rule overflow_pow2) simp
  have "\<bar>(f1 - f0) * (a - x0) + f0\<bar> \<le> 2 ^ 101 + 2 ^ 100" using b2 assms(4) by linarith
  then have b3: "\<bar>(f1 - f0) * (a - x0) + f0\<bar> \<le> 2 ^ 102" by simp
  have r: "overflow ((f1 - f0) * (a - x0) + f0) = Fin ((f1 - f0) * (a - x0) + f0)"
    using b3 by (rule overflow_pow2) simp
  have "fl_add (fl_mul (Fin (f1 - f0)) (fl_sub (Fin a) (Fin x0))) (Fin f0) =
          Fin ((f1 - f0) * (a - x0) + f0)"
    using t m r by (simp add: fl_sub_def)
  then show ?thesis unfolding interp_seg_def Let_def sl by simp
qed

lemma interp_seg_NaN: "interp_seg x x0 NaN x1 NaN = NaN"
  by (simp add: interp_seg_def fl_sub_def Let_def)

lemma interp_index_inside:
  assumes "real k \<le> a" and "a < real k + 1" and "k + 1 < length gs"
  shows "interp_index gs a = gs ! k + (gs ! (k + 1) - gs ! k) * (a - real k)"
proof -
  have "\<lfloor>a\<rfloor> = int k" using assms(1,2) by (simp add: floor_unique)
  then have f: "nat \<lfloor>a\<rfloor> = k" by simp
  have "\<not> real (length gs) - 1 \<le> a" using assms(2,3) by linarith
  then show ?thesis by (simp add: interp_index_def f)
qed

lemma interp_from_arange:
  assumes "k < length gs" and "real k \<le> a" and "\<forall>g \<in> set gs. \<bar>g\<bar> \<le> 2 ^ 100"
  shows "interp_from (Fin a) (zip (map real [k..<length gs]) (map Fin (drop k gs))) =
           Fin (interp_index gs a)"
  using assms
proof (induction "length gs - k" arbitrary: k)
  case 0
  then show ?case by simp
next
  case (Suc m)
  have dk: "drop k gs = gs ! k # drop (Suc k) gs"
    using Suc.prems(1) by (simp add: Cons_nth_drop_Suc)
  have uk: "[k..<length gs] = k # [Suc k..<length gs]"
    using Suc.prems(1) by (simp add: upt_conv_Cons)
  show ?case
  proof (cases "Suc k < length gs")
    case False
    then have last: "length gs = Suc k" using Suc.prems(1) by simp
    then have "drop (Suc k) gs = []" by simp
    moreover have "gs \<noteq> []" using Suc.prems(1) by auto
    then have "last gs = gs ! k" using last by (simp add: last_conv_nth)
    moreover have "real (length gs) - 1 \<le> a" using last Suc.prems(2) by simp
    ultimately show ?thesis
      by (simp add: dk uk last interp_index_at_top)
  next
    case True
    have dk2: "drop (Suc k) gs = gs ! Suc k # drop (Suc (Suc k)) gs"
      using True by (simp add: Cons_nth_drop_Suc)
    have uk2: "[Suc k..<length gs] = Suc k # [Suc (Suc k)..<length gs]"
      using True by (simp add: upt_conv_Cons)
    show ?thesis
    proof (cases "a < real (Suc k)")
      case near: True
      have ii: "interp_index gs a = gs ! k + (gs ! (k + 1) - gs ! k) * (a - real k)"
        using interp_index_inside [of k a gs] Suc.prems(2) near True by simp
      show ?thesis
      proof (cases "a = real k")
        case True
        then have "interp_index gs a = gs ! k" using ii by simp
        then show ?thesis using near True by (simp add: dk uk dk2 uk2)
      next
        case False
        have g: "\<bar>gs ! k\<bar> \<le> 2 ^ 100" "\<bar>gs ! Suc k\<bar> \<le> 2 ^ 100"
          using Suc.prems(1,3) True by (simp_all only: nth_mem)
        have "interp_seg (Fin a) (real k) (Fin (gs ! k)) (real (Suc k)) (Fin (gs ! Suc k)) =
                Fin ((gs ! Suc k - gs ! k) * (a - real k) + gs ! k)"
          using Suc.prems(2) near g by (intro interp_seg_Fin) simp_all
        then show ?thesis
          using near False by (simp add: dk uk dk2 uk2 ii algebra_simps)
      qed
    next
      case far: False
      have m: "m = length gs - Suc k" using Suc.hyps(2) by simp
      have "interp_from (Fin a) (zip (map real [Suc k..<length gs]) (map Fin (drop (Suc k) gs)))
          = Fin (interp_index gs a)"
        using Suc.hyps(1) [OF m True _ Suc.prems(3)] far by simp
      then show ?thesis using far by (simp add: dk uk dk2 uk2)
    qed
  qed
qed

lemma histogram_ne: "histogram xs (arange 257) \<noteq> []"
  using length_histogram [of xs] by (metis length_0_conv zero_neq_numeral)

lemma length_lookup_curve: "length (lookup_curve xs) = 256"
  by (simp add: lookup_curve_def Let_def cumsum_def length_cumsum_from length_histogram)

lemma histogram_entry_le: "h \<in> set (histogram xs edges) \<Longrightarrow> h \<le> length xs"
  by (auto simp: histogram_def)

lemma sum_list_le_times: "\<forall>x \<in> set ys. x \<le> (B::nat) \<Longrightarrow> sum_list ys \<le> length ys * B"
  by (induction ys) auto

lemma histogram_total_le: "sum_list (histogram xs (arange 257)) \<le> 256 * length xs"
proof -
  have "\<forall>h \<in> set (histogram xs (arange 257)). h \<le> length xs"
    using histogram_entry_le by blast
  then have "sum_list (histogram xs (arange 257)) \<le>
      length (histogram xs (arange 257)) * length xs" by (rule sum_list_le_times)
  then show ?thesis by (simp only: length_histogram)
qed

lemma peak_count_le: "peak_count xs \<le> length xs"
  unfolding peak_count_def using histogram_entry_le by (intro max_count_le) blast

lemma small_array:
  assumes "length xs < 2 ^ 63"
  shows "real (length xs) \<le> 2 ^ 63" and "real (peak_count xs) \<le> 2 ^ 63"
    and "real (sum_list (histogram xs (arange 257))) \<le> 2 ^ 71"
proof -
  have "real (length xs) < real (2 ^ 63)" using assms by (simp only: of_nat_less_iff)
  then show n: "real (length xs) \<le> 2 ^ 63" by simp
  have "real (peak_count xs) \<le> real (length xs)"
    using peak_count_le by (simp only: of_nat_le_iff)
  with n show "real (peak_count xs) \<le> 2 ^ 63" by linarith
  have "real (sum_list (histogram xs (arange 257))) \<le> real (256 * length xs)"
    using histogram_total_le by (simp only: of_nat_le_iff)
  also have "\<dots> = 2 ^ 8 * real (length xs)" by simp
  also have "\<dots> \<le> 2 ^ 8 * 2 ^ 63" using n by (intro mult_left_mono) simp_all
  also have "\<dots> = (2::real) ^ 71" by (simp only: power_add [symmetric]) simp
  finally show "real (sum_list (histogram xs (arange 257))) \<le> 2 ^ 71" .
qed

lemma cdf_normalized_Fin:
  assumes "0 < sum_list (histogram xs (arange 257))" and "length xs < 2 ^ 63"
  shows "cdf_normalized xs = map Fin (lookup_curve xs)"
proof -
  let ?h = "histogram xs (arange 257)"
  define N where "N = sum_list ?h"
  define p where "p = max_count ?h"
  have mc: "max_count (cumsum ?h) = N"
    unfolding N_def using histogram_ne by (rule max_count_cumsum)
  have Npos: "0 < N" using assms(1) by (simp only: N_def)
  have pb: "real p \<le> 2 ^ 63"
    using small_array(2) [OF assms(2)] by (simp only: p_def peak_count_def)
  have Nb: "real N \<le> 2 ^ 71" using small_array(3) [OF assms(2)] by (simp only: N_def)
  have el: "fl_div (fl_mul (Fin (real c)) (Fin (real p))) (Fin (real N)) =
              Fin (real c * real p / real N)" if "c \<in> set (cumsum ?h)" for c
  proof -
    have "c \<le> N" using cumsum_from_bounds [of c 0 ?h] that by (simp add: cumsum_def N_def)
    then have cb: "real c \<le> 2 ^ 71" using Nb by linarith
    have "real c * real p \<le> 2 ^ 71 * 2 ^ 63" using cb pb by (intro mult_mono) simp_all
    also have "\<dots> = (2::real) ^ 134" by (simp only: power_add [symmetric]) simp
    finally have le: "real c * real p \<le> 2 ^ 134" .
    then have b: "\<bar>real c * real p\<bar> \<le> 2 ^ 134" by simp
    have m: "overflow (real c * real p) = Fin (real c * real p)"
      using b by (rule overflow_pow2) simp
    have "1 \<le> real N" using Npos by simp
    then have "real c * real p / real N \<le> real c * real p / 1"
      by (intro frac_le) simp_all
    then have b2: "\<bar>real c * real p / real N\<bar> \<le> 2 ^ 134" using le by simp
    have q: "overflow (real c * real p / real N) = Fin (real c * real p / real N)"
      using b2 by (rule overflow_pow2) simp
    show ?thesis using Npos by (simp add: m q)
  qed
  have "cdf_normalized xs =
      map (\<lambda>c. fl_div (fl_mul (Fin (real c)) (Fin (real p))) (Fin (real N))) (cumsum ?h)"
    by (simp only: cdf_normalized_def Let_def mc p_def)
  also have "\<dots> = map (\<lambda>c. Fin (real c * real p / real N)) (cumsum ?h)"
    by (rule map_cong [OF refl el])
  also have "\<dots> = map Fin (lookup_curve xs)"
    by (simp add: lookup_curve_def Let_def N_def p_def o_def)
  finally show ?thesis .
qed

lemma cdf_normalized_NaN:
  assumes "\<forall>z \<in> set xs. \<not> (fl_le (Fin 0) z \<and> fl_le z (Fin 256))"
  shows "cdf_normalized xs = replicate 256 NaN"
proof -
  have h: "histogram xs (arange 257) = replicate 256 0"
    using assms by (rule histogram_all_zero)
  show ?thesis
    unfolding cdf_normalized_def h Let_def cumsum_def cumsum_from_replicate_zero
    by (simp add: max_count_replicate)
qed

lemma lookup_curve_sorted: "sorted (lookup_curve xs)"
proof -
  let ?h = "histogram xs (arange 257)"
  let ?f = "\<lambda>c. real c * real (max_count ?h) / real (sum_list ?h)"
  have "sorted_wrt (\<le>) (cumsum ?h)" by (simp add: cumsum_def cumsum_from_sorted)
  then have "sorted_wrt (\<lambda>x y. ?f x \<le> ?f y) (cumsum ?h)"
    by (rule sorted_wrt_mono_rel [rotated])
      (simp add: divide_right_mono mult_right_mono)
  then show ?thesis by (simp add: lookup_curve_def Let_def sorted_wrt_map)
qed

lemma lookup_curve_range:
  assumes "g \<in> set (lookup_curve xs)"
  shows "0 \<le> g \<and> g \<le> real (peak_count xs)"
proof -
  let ?h = "histogram xs (arange 257)"
  from assms obtain c where c: "c \<in> set (cumsum ?h)"
    and g: "g = real c * real (max_count ?h) / real (sum_list ?h)"
    by (auto simp: lookup_curve_def Let_def)
  define N where "N = sum_list ?h"
  define p where "p = max_count ?h"
  have g': "g = real c * real p / real N" using g by (simp only: N_def p_def)
  have le: "c \<le> N"
    using cumsum_from_bounds [of c 0 ?h] c by (simp add: cumsum_def N_def)
  have "0 \<le> g" using g' by simp
  moreover have "g \<le> real p"
  proof (cases "N = 0")
    case True
    then show ?thesis using g' by simp
  next
    case False
    then have pos: "0 < real N" by simp
    have "real c \<le> real N" using le by simp
    then have "real c * real p \<le> real N * real p" by (rule mult_right_mono) simp
    then have "real c * real p \<le> real p * real N" by (simp only: mult.commute)
    then have "real c * real p / real N \<le> real p"
      using pos by (simp only: pos_divide_le_eq)
    then show ?thesis by (simp only: g')
  qed
  ultimately show ?thesis by (simp add: peak_count_def p_def)
qed

lemma lookup_curve_small:
  assumes "length xs < 2 ^ 63"
  shows "\<forall>g \<in> set (lookup_curve xs). \<bar>g\<bar> \<le> 2 ^ 100"
proof
  fix g assume "g \<in> set (lookup_curve xs)"
  then have "0 \<le> g" "g \<le> real (peak_count xs)" using lookup_curve_range by blast+
  moreover have "(2::real) ^ 63 \<le> 2 ^ 100" by (rule power_increasing) simp_all
  ultimately show "\<bar>g\<bar> \<le> 2 ^ 100" using small_array(2) [OF assms] by linarith
qed

lemma lookup_curve_last:
  assumes "0 < sum_list (histogram xs (arange 257))"
  shows "last (lookup_curve xs) = real (peak_count xs)"
proof -
  let ?h = "histogram xs (arange 257)"
  have ne: "cumsum ?h \<noteq> []" using histogram_ne by (simp add: cumsum_def cumsum_from_ne)
  have l: "last (cumsum ?h) = sum_list ?h"
    using histogram_ne by (simp add: cumsum_def cumsum_from_last)
  have p: "real (sum_list ?h) \<noteq> 0" using assms by linarith
  have "last (lookup_curve xs) =
          real (last (cumsum ?h)) * real (max_count ?h) / real (sum_list ?h)"
    unfolding lookup_curve_def Let_def using ne by (rule last_map)
  also have "\<dots> = real (max_count ?h)" unfolding l using p by (rule nonzero_mult_div_cancel_left)
  finally show ?thesis by (simp only: peak_count_def)
qed

subsection \<open>Interpolation at the 256 sample points\<close>

lemma sample_points: "butlast (arange 257) = map real [0..<256]"
proof -
  have "butlast [0..<257] = [0..<256]" by (simp add: butlast_conv_take)
  then show ?thesis unfolding arange_def map_butlast [symmetric] by (rule arg_cong)
qed

lemma interp_from_PInf:
  "ps \<noteq> [] \<Longrightarrow> interp_from PInf ps = snd (last ps)"
  by (induction PInf ps rule: interp_from.induct) simp_all

lemma interp1_Fin:
  assumes "length gs = 256" and "\<forall>g \<in> set gs. \<bar>g\<bar> \<le> 2 ^ 100"
  shows "interp1 (butlast (arange 257)) (map Fin gs) (Fin a) = Fin (interp_index gs (max 0 a))"
proof -
  have ne: "gs \<noteq> []" using assms by auto
  have hd: "hd (map real [0..<256]) = 0" by (simp add: upt_conv_Cons)
  show ?thesis
  proof (cases "a < 0")
    case True
    then have "interp1 (butlast (arange 257)) (map Fin gs) (Fin a) = Fin (hd gs)"
      using ne by (simp add: interp1_def sample_points hd hd_map)
    moreover have "max 0 a = 0" using True by simp
    ultimately show ?thesis using ne by (simp add: interp_index_zero)
  next
    case False
    have "(0::nat) < length gs" "real (0::nat) \<le> a" using False assms(1) by simp_all
    then have "interp_from (Fin a) (zip (map real [0..<length gs]) (map Fin (drop 0 gs))) =
            Fin (interp_index gs a)"
      using assms(2) by (rule interp_from_arange)
    moreover have "max 0 a = a" using False by simp
    ultimately show ?thesis
      using False by (simp add: interp1_def sample_points hd assms(1))
  qed
qed

lemma interp1_PInf:
  assumes "length gs = 256"
  shows "interp1 (butlast (arange 257)) (map Fin gs) PInf = Fin (last gs)"
proof -
  have ne: "gs \<noteq> []" using assms by auto
  let ?ps = "zip (map real [0..<256]) (map Fin gs)"
  have l: "length (map real [0..<256]) = length (map Fin gs)" using assms by simp
  have pne: "?ps \<noteq> []" using ne by (simp add: upt_conv_Cons)
  have "last ?ps = (last (map real [0..<256]), last (map Fin gs))"
    using l pne by (metis last_zip zip_eq_Nil_iff)
  then have "snd (last ?ps) = Fin (last gs)" using ne by (simp add: last_map)
  then show ?thesis
    using interp_from_PInf [OF pne] by (simp add: interp1_def sample_points)
qed

lemma interp1_NInf:
  assumes "length gs = 256"
  shows "interp1 (butlast (arange 257)) (map Fin gs) NInf = Fin (hd gs)"
proof -
  have ne: "gs \<noteq> []" using assms by auto
  have hd: "hd (map real [0..<256]) = 0" by (simp add: upt_conv_Cons)
  show ?thesis using ne by (simp add: interp1_def sample_points hd hd_map)
qed

lemma interp_from_NaN:
  "\<forall>p \<in> set ps. snd p = NaN \<Longrightarrow> interp_from x ps = NaN"
  by (induction x ps rule: interp_from.induct) (simp_all add: interp_seg_NaN)

lemma interp1_NaN:
  assumes "0 < n" and "length xp = n"
  shows "interp1 xp (replicate n NaN) x = NaN"
proof -
  have "\<forall>p \<in> set (zip xp (replicate n NaN)). snd p = NaN"
    by (auto dest: set_zip_rightD)
  then have "interp_from x (zip xp (replicate n NaN)) = NaN" by (rule interp_from_NaN)
  moreover have "hd (replicate n NaN) = NaN" using assms(1) by (cases n) simp_all
  ultimately show ?thesis by (cases x) (simp_all add: interp1_def)
qed

section \<open>Histogram equalization of an array\<close>

lemma interp_index_at_nat:
  assumes "k < length gs"
  shows "interp_index gs (real k) = gs ! k"
proof (cases "k + 1 < length gs")
  case True
  have "interp_index gs (real k) = gs ! k + (gs ! (k + 1) - gs ! k) * (real k - real k)"
    using True by (intro interp_index_inside) simp_all
  then show ?thesis by simp
next
  case False
  then have l: "length gs = k + 1" using assms by simp
  then have "gs \<noteq> []" by auto
  then have "last gs = gs ! k" using l by (simp add: last_conv_nth)
  moreover have "real (length gs) - 1 \<le> real k" using l by simp
  ultimately show ?thesis by (simp add: interp_index_at_top)
qed

lemma in_bins_total:
  assumes "z \<in> set xs" and "in_bins z"
  shows "0 < sum_list (histogram xs (arange 257))"
  using assms unfolding in_bins_def by (intro histogram_total_pos [of z]) simp_all

lemma hist_eq_scaling_in_bins:
  assumes "\<exists>z \<in> set (elems data). in_bins z" and "length (elems data) < 2 ^ 63"
  shows "hist_eq_scaling data =
           Inr (map_elems (interp1 (butlast (arange 257)) (map Fin (lookup_curve (elems data))))
                  data)"
proof -
  from assms obtain z where "z \<in> set (elems data)" "in_bins z" by blast
  then have "0 < sum_list (histogram (elems data) (arange 257))" by (rule in_bins_total)
  then have "cdf_normalized (elems data) = map Fin (lookup_curve (elems data))"
    using assms(2) by (rule cdf_normalized_Fin)
  then show ?thesis by (simp only: hist_eq_scaling_returns)
qed

lemma hist_eq_scaling_no_bins:
  assumes "\<forall>z \<in> set (elems data). \<not> in_bins z"
  shows "hist_eq_scaling data = Inr (map_elems (\<lambda>x. NaN) data)"
proof -
  have "cdf_normalized (elems data) = replicate 256 NaN"
    using assms unfolding in_bins_def by (rule cdf_normalized_NaN)
  moreover have "interp1 (butlast (arange 257)) (replicate 256 NaN) = (\<lambda>x. NaN)"
    by (rule ext, rule interp1_NaN) (simp_all only: length_sample_points zero_less_numeral)
  ultimately show ?thesis by (simp only: hist_eq_scaling_returns)
qed

lemma lookup_curve_ne: "lookup_curve xs \<noteq> []"
  using length_lookup_curve [of xs] by (metis length_0_conv zero_neq_numeral)

lemma lookup_value_range:
  assumes "0 < sum_list (histogram xs (arange 257))" and "\<not> isnan x"
    and "length xs < 2 ^ 63"
  shows "\<exists>r. interp1 (butlast (arange 257)) (map Fin (lookup_curve xs)) x = Fin r \<and>
           0 \<le> r \<and> r \<le> real (peak_count xs)"
proof -
  let ?gs = "lookup_curve xs"
  have l: "length ?gs = 256" by (rule length_lookup_curve)
  have ne: "?gs \<noteq> []" by (rule lookup_curve_ne)
  have h: "0 \<le> hd ?gs" using lookup_curve_range [of "hd ?gs" xs] ne by simp
  have t: "last ?gs \<le> real (peak_count xs)"
    using lookup_curve_range [of "last ?gs" xs] ne by simp
  have ht: "hd ?gs \<le> last ?gs"
    using interp_index_bounds [OF lookup_curve_sorted ne, of 0] ne by (simp add: interp_index_zero)
  show ?thesis
  proof (cases x)
    case (Fin a)
    have "hd ?gs \<le> interp_index ?gs (max 0 a) \<and> interp_index ?gs (max 0 a) \<le> last ?gs"
      using lookup_curve_sorted ne by (rule interp_index_bounds) simp
    then have "0 \<le> interp_index ?gs (max 0 a) \<and>
               interp_index ?gs (max 0 a) \<le> real (peak_count xs)"
      using h t by linarith
    then show ?thesis unfolding Fin interp1_Fin [OF l lookup_curve_small [OF assms(3)]] by blast
  next
    case PInf
    have "0 \<le> last ?gs" using h ht by linarith
    then show ?thesis unfolding PInf interp1_PInf [OF l] using t by blast
  next
    case NInf
    have "hd ?gs \<le> real (peak_count xs)" using t ht by linarith
    then show ?thesis unfolding NInf interp1_NInf [OF l] using h by blast
  next
    case NaN
    then show ?thesis using assms(2) by simp
  qed
qed

lemma interp1_isnan: "isnan x \<Longrightarrow> interp1 xp fp x = NaN"
  by (cases x) (simp_all add: interp1_def)

lemma interp1_at_sample:
  assumes "length gs = 256" and "\<forall>g \<in> set gs. \<bar>g\<bar> \<le> 2 ^ 100" and "k < 256"
  shows "interp1 (butlast (arange 257)) (map Fin gs) (Fin (real k)) = Fin (gs ! k)"
proof -
  have "max 0 (real k) = real k" by simp
  then show ?thesis
    using assms(1,3) by (simp only: interp1_Fin [OF assms(1,2)] interp_index_at_nat)
qed

lemma histogram_eqI:
  assumes "length h = 256"
    and "\<And>i. i < 256 \<Longrightarrow> h ! i = length (filter (in_bin (arange 257) i) xs)"
  shows "histogram xs (arange 257) = h"
proof (rule nth_equalityI)
  show "length (histogram xs (arange 257)) = length h"
    by (simp only: length_histogram assms(1))
next
  fix i assume "i < length (histogram xs (arange 257))"
  then have i: "i < 256" by (simp only: length_histogram)
  show "histogram xs (arange 257) ! i = h ! i"
    by (simp only: histogram_nth [OF i] assms(2) [OF i])
qed

lemma max_count_Cons: "max_count (x # xs) = max x (max_count xs)"
  by (simp add: max_count_def)

lemma histogram_two_zeros:
  "histogram [Fin 0, Fin 0] (arange 257) = 2 # replicate 255 0"
proof (rule histogram_eqI)
  show "length (2 # replicate 255 (0::nat)) = 256" by simp
next
  fix i :: nat assume i: "i < 256"
  have b: "in_bin (arange 257) i (Fin 0) = (i = 0)"
    using i by (auto simp: in_bin_arange)
  have f: "filter (in_bin (arange 257) i) [Fin 0, Fin 0] = (if i = 0 then [Fin 0, Fin 0] else [])"
    unfolding filter.simps b by simp
  have "(2 # replicate 255 0) ! i = (if i = 0 then 2 else (0::nat))"
    using i by (simp add: nth_Cons')
  then show "(2 # replicate 255 0) ! i = length (filter (in_bin (arange 257) i) [Fin 0, Fin 0])"
    unfolding f by simp
qed

lemma lookup_curve_two_zeros: "lookup_curve [Fin 0, Fin 0] = replicate 256 2"
proof -
  have c: "cumsum (2 # replicate 255 0) = 2 # replicate 255 2"
    by (simp add: cumsum_def cumsum_from_replicate_zero)
  have m: "max_count (2 # replicate 255 0) = 2"
    by (simp add: max_count_Cons max_count_replicate)
  have s: "sum_list (2 # replicate 255 (0::nat)) = 2" by (simp add: sum_list_replicate)
  have "lookup_curve [Fin 0, Fin 0] = map (\<lambda>c. real c * 2 / 2) (2 # replicate 255 2)"
    unfolding lookup_curve_def histogram_two_zeros Let_def c m s by simp
  also have "\<dots> = (2::real) # replicate 255 2" by simp
  also have "\<dots> = replicate (Suc 255) 2" by (simp only: replicate_Suc)
  finally show ?thesis by simp
qed

lemma in_bins_zero: "in_bins (Fin 0)"
  by (simp add: in_bins_def)

lemma hist_eq_two_zeros:
  "hist_eq_scaling \<lparr>shape = [1, 2], elems = [Fin 0, Fin 0]\<rparr> =
     Inr \<lparr>shape = [1, 2], elems = [Fin 2, Fin 2]\<rparr>"
proof -
  let ?d = "\<lparr>shape = [1, 2], elems = [Fin 0, Fin 0]\<rparr>"
  have b: "\<exists>z \<in> set (elems ?d). in_bins z" using in_bins_zero by simp
  have n: "length (elems ?d) < 2 ^ 63" by simp
  have l: "length (replicate 256 (2::real)) = 256" by simp
  have sm: "\<forall>g \<in> set (replicate 256 (2::real)). \<bar>g\<bar> \<le> 2 ^ 100" by simp
  have "interp1 (butlast (arange 257)) (map Fin (replicate 256 2)) (Fin (real (0::nat))) =
          Fin (replicate 256 2 ! 0)"
    by (rule interp1_at_sample [OF l sm]) simp
  then have e: "interp1 (butlast (arange 257)) (map Fin (replicate 256 2)) (Fin 0) = Fin 2"
    by simp
  have "hist_eq_scaling ?d =
      Inr (map_elems (interp1 (butlast (arange 257)) (map Fin (lookup_curve (elems ?d)))) ?d)"
    by (rule hist_eq_scaling_in_bins [OF b n])
  then show ?thesis using e by (simp add: lookup_curve_two_zeros map_elems_def)
qed

lemma peak_count_two_zeros: "peak_count [Fin 0, Fin 0] = 2"
  unfolding peak_count_def histogram_two_zeros
  by (simp add: max_count_Cons max_count_replicate)

lemma lookup_no_bins:
  assumes "\<forall>z \<in> set xs. \<not> in_bins z"
  shows "interp1 (butlast (arange 257)) (cdf_normalized xs) x = NaN"
proof -
  have "cdf_normalized xs = replicate 256 NaN"
    using assms unfolding in_bins_def by (rule cdf_normalized_NaN)
  moreover have "interp1 (butlast (arange 257)) (replicate 256 NaN) x = NaN"
    by (rule interp1_NaN) (simp_all only: length_sample_points zero_less_numeral)
  ultimately show ?thesis by simp
qed

lemma not_in_bins_1000: "\<not> in_bins (Fin 1000)"
  by (simp add: in_bins_def)

text \<open>
  C8, as the claim states it, fails on an input without an entry in \<open>[0, 256]\<close>: every
  bin of the histogram is empty, the cumulative sum is 0 everywhere, the rescaling divides
  0 by 0, and every output value is NaN. For the image of the one pixel 1000 the
  largest bin count is 0 and the output NaN is not a value of \<open>[0, 0]\<close>.
\<close>

theorem hist_eq_out_of_bins_example:
  "hist_eq_scaling \<lparr>shape = [1, 1], elems = [Fin 1000]\<rparr> =
     Inr \<lparr>shape = [1, 1], elems = [NaN]\<rparr> \<and>
   peak_count [Fin 1000] = 0"
proof -
  let ?d = "\<lparr>shape = [1, 1], elems = [Fin 1000]\<rparr>"
  have n: "\<forall>z \<in> set (elems ?d). \<not> in_bins z" using not_in_bins_1000 by simp
  have "hist_eq_scaling ?d = Inr (map_elems (\<lambda>x. NaN) ?d)"
    by (rule hist_eq_scaling_no_bins [OF n])
  then have 1: "hist_eq_scaling ?d = Inr \<lparr>shape = [1, 1], elems = [NaN]\<rparr>"
    by (simp add: map_elems_def)
  have "\<forall>z \<in> set [Fin 1000]. \<not> (fl_le (Fin 0) z \<and> fl_le z (Fin 256))" by simp
  then have "histogram [Fin 1000] (arange 257) = replicate 256 0"
    by (rule histogram_all_zero)
  then have 2: "peak_count [Fin 1000] = 0"
    by (simp add: peak_count_def max_count_replicate)
  from 1 2 show ?thesis by (rule conjI)
qed

text \<open>
  C8, amended, for an array of fewer than \<open>2^63\<close> entries (more cannot be indexed, and
  the counts stay far from overflow): \<^verbatim>\<open>hist_eq_scaling\<close> always returns, an array of
  the shape of its input;
  the histogram has 256 bins; the entry at each position is the value at the input entry
  of the piecewise-linear curve through the points \<open>(i, cdf_normalized[i])\<close>,
  \<open>i = 0, \<dots>, 255\<close>; every output entry is NaN or a number between 0 and the largest
  bin count. When some entry of the input lies in \<open>[0, 256]\<close>, the curve
  \<^verbatim>\<open>cdf_normalized\<close> is the cumulative sum of the histogram rescaled by the largest bin
  count over the total count: it is non-decreasing, lies between 0 and the largest bin
  count and ends at the largest bin count, and every input entry that is not NaN gets a
  number between 0 and the largest bin count. The output is not normalized to
  \<open>[0, 1]\<close>: for the one row \<open>[0, 0]\<close> it is \<open>[2, 2]\<close>.
\<close>

theorem hist_eq_scaling_lookup:
  assumes "length (elems data) < 2 ^ 63"
  shows "(\<exists>out. hist_eq_scaling data = Inr out \<and> shape out = shape data \<and>
      length (elems out) = length (elems data) \<and>
      length (histogram (elems data) (arange 257)) = 256 \<and>
      (\<forall>i < length (elems data).
         elems out ! i =
           interp1 (butlast (arange 257)) (cdf_normalized (elems data)) (elems data ! i)) \<and>
      (\<forall>v \<in> set (elems out).
         v = NaN \<or> (\<exists>r. v = Fin r \<and> 0 \<le> r \<and> r \<le> real (peak_count (elems data)))) \<and>
      ((\<exists>z \<in> set (elems data). in_bins z) \<longrightarrow>
         cdf_normalized (elems data) = map Fin (lookup_curve (elems data)) \<and>
         sorted (lookup_curve (elems data)) \<and>
         (\<forall>g \<in> set (lookup_curve (elems data)). 0 \<le> g \<and> g \<le> real (peak_count (elems data))) \<and>
         last (lookup_curve (elems data)) = real (peak_count (elems data)) \<and>
         (\<forall>i < length (elems data). \<not> isnan (elems data ! i) \<longrightarrow>
            (\<exists>r. elems out ! i = Fin r \<and> 0 \<le> r \<and> r \<le> real (peak_count (elems data)))))) \<and>
   hist_eq_scaling \<lparr>shape = [1, 2], elems = [Fin 0, Fin 0]\<rparr> =
     Inr \<lparr>shape = [1, 2], elems = [Fin 2, Fin 2]\<rparr>"
  (is "?general \<and> ?example")
proof -
  let ?xs = "elems data"
  let ?f = "interp1 (butlast (arange 257)) (cdf_normalized ?xs)"
  let ?out = "map_elems ?f data"
  let ?p = "real (peak_count ?xs)"
  have ret: "hist_eq_scaling data = Inr ?out" by (rule hist_eq_scaling_returns)
  have sh: "shape ?out = shape data" "length (elems ?out) = length ?xs"
    by (simp_all add: map_elems_def)
  have nth: "elems ?out ! i = ?f (?xs ! i)" if "i < length ?xs" for i
    using that by (simp add: map_elems_def)
  have inb: "cdf_normalized ?xs = map Fin (lookup_curve ?xs) \<and>
             (\<forall>x. \<not> isnan x \<longrightarrow> (\<exists>r. ?f x = Fin r \<and> 0 \<le> r \<and> r \<le> ?p)) \<and>
             last (lookup_curve ?xs) = ?p"
    if "\<exists>z \<in> set ?xs. in_bins z"
  proof -
    from that obtain z where "z \<in> set ?xs" "in_bins z" by blast
    then have pos: "0 < sum_list (histogram ?xs (arange 257))" by (rule in_bins_total)
    have c: "cdf_normalized ?xs = map Fin (lookup_curve ?xs)"
      using pos assms by (rule cdf_normalized_Fin)
    have "\<exists>r. ?f x = Fin r \<and> 0 \<le> r \<and> r \<le> ?p" if "\<not> isnan x" for x
      unfolding c using pos that assms by (rule lookup_value_range)
    with c lookup_curve_last [OF pos] show ?thesis by blast
  qed
  have rng: "v = NaN \<or> (\<exists>r. v = Fin r \<and> 0 \<le> r \<and> r \<le> ?p)" if "v \<in> set (elems ?out)" for v
  proof -
    from that obtain x where x: "x \<in> set ?xs" "v = ?f x" by (auto simp: map_elems_def)
    show ?thesis
    proof (cases "\<exists>z \<in> set ?xs. in_bins z")
      case True
      show ?thesis
      proof (cases "isnan x")
        case nan: True
        then show ?thesis using x(2) by (simp add: interp1_isnan)
      next
        case False
        with inb [OF True] x(2) show ?thesis by blast
      qed
    next
      case False
      then have "\<forall>z \<in> set ?xs. \<not> in_bins z" by blast
      then have "?f x = NaN" by (rule lookup_no_bins)
      then show ?thesis using x(2) by simp
    qed
  qed
  have fin: "\<exists>r. elems ?out ! i = Fin r \<and> 0 \<le> r \<and> r \<le> ?p"
    if "\<exists>z \<in> set ?xs. in_bins z" "i < length ?xs" "\<not> isnan (?xs ! i)" for i
  proof -
    from inb [OF that(1)] that(3)
    have "\<exists>r. ?f (?xs ! i) = Fin r \<and> 0 \<le> r \<and> r \<le> ?p" by blast
    then show ?thesis by (simp only: nth [OF that(2)])
  qed
  have curve: "\<forall>g \<in> set (lookup_curve ?xs). 0 \<le> g \<and> g \<le> ?p"
    using lookup_curve_range by blast
  have ?general
  proof (intro exI [of _ ?out] conjI impI allI ballI)
    show "hist_eq_scaling data = Inr ?out" by (rule ret)
    show "shape ?out = shape data" by (rule sh(1))
    show "length (elems ?out) = length ?xs" by (rule sh(2))
    show "length (histogram ?xs (arange 257)) = 256" by (rule length_histogram)
    show "elems ?out ! i = ?f (?xs ! i)" if "i < length ?xs" for i using that by (rule nth)
    show "v = NaN \<or> (\<exists>r. v = Fin r \<and> 0 \<le> r \<and> r \<le> ?p)" if "v \<in> set (elems ?out)" for v
      using that by (rule rng)
    show "cdf_normalized ?xs = map Fin (lookup_curve ?xs)" if "\<exists>z \<in> set ?xs. in_bins z"
      using inb [OF that] by blast
    show "sorted (lookup_curve ?xs)" by (rule lookup_curve_sorted)
    show "0 \<le> g" if "g \<in> set (lookup_curve ?xs)" for g using curve that by blast
    show "g \<le> ?p" if "g \<in> set (lookup_curve ?xs)" for g using curve that by blast
    show "last (lookup_curve ?xs) = ?p" if "\<exists>z \<in> set ?xs. in_bins z"
      using inb [OF that] by blast
    show "\<exists>r. elems ?out ! i = Fin r \<and> 0 \<le> r \<and> r \<le> ?p"
      if "\<exists>z \<in> set ?xs. in_bins z" "i < length ?xs" "\<not> isnan (?xs ! i)" for i
      using that by (rule fin)
  qed
  then show ?thesis using hist_eq_two_zeros by (rule conjI)
qed

theorem hist_eq_scaling_lookup_witness:
  "hist_eq_scaling \<lparr>shape = [1, 2], elems = [Fin 0, Fin 0]\<rparr> =
     Inr \<lparr>shape = [1, 2], elems = [Fin 2, Fin 2]\<rparr> \<and>
   peak_count [Fin 0, Fin 0] = 2 \<and> last (lookup_curve [Fin 0, Fin 0]) = 2 \<and>
   (1::real) < 2"
proof -
  let ?d = "\<lparr>shape = [1, 2], elems = [Fin 0, Fin 0]\<rparr>"
  have b: "\<exists>z \<in> set (elems ?d). in_bins z" using in_bins_zero by simp
  have n: "length (elems ?d) < 2 ^ 63" by simp
  from hist_eq_scaling_lookup [OF n] b
  have "last (lookup_curve (elems ?d)) = real (peak_count (elems ?d))" by blast
  then have "last (lookup_curve [Fin 0, Fin 0]) = 2" by (simp add: peak_count_two_zeros)
  with hist_eq_two_zeros peak_count_two_zeros show ?thesis by simp
qed

lemma not_in_bins_300_400: "\<not> in_bins (Fin 300)" "\<not> in_bins (Fin 400)"
  by (simp_all add: in_bins_def)

text \<open>
  C10, as the claim states it, fails on an input without an entry in \<open>[0, 256]\<close>: the
  lookup curve is NaN everywhere, so are the output values, and NaN is not less than or
  equal to NaN.
\<close>

theorem hist_eq_not_monotone_example:
  "hist_eq_scaling \<lparr>shape = [1, 2], elems = [Fin 300, Fin 400]\<rparr> =
     Inr \<lparr>shape = [1, 2], elems = [NaN, NaN]\<rparr> \<and>
   (300::real) \<le> 400 \<and> \<not> fl_le NaN NaN"
proof -
  let ?d = "\<lparr>shape = [1, 2], elems = [Fin 300, Fin 400]\<rparr>"
  have n: "\<forall>z \<in> set (elems ?d). \<not> in_bins z" using not_in_bins_300_400 by simp
  have "hist_eq_scaling ?d = Inr (map_elems (\<lambda>x. NaN) ?d)"
    by (rule hist_eq_scaling_no_bins [OF n])
  then show ?thesis by (simp add: map_elems_def)
qed

text \<open>
  C10, amended: for an input with at least one entry in \<open>[0, 256]\<close> (and fewer than
  \<open>2^63\<close> entries), \<^verbatim>\<open>hist_eq_scaling\<close> is monotone on the finite entries: for two finite entries
  \<open>x \<le> y\<close> the output values at their positions are numbers \<open>u \<le> v\<close>. They are
  the values of the non-decreasing lookup curve, interpolated linearly at \<open>max 0 x\<close> and
  \<open>max 0 y\<close>: an entry below 0 gets the first value of the curve, an entry from 255 on
  the last.
\<close>

theorem hist_eq_scaling_monotone:
  assumes "\<exists>z \<in> set (elems data). in_bins z"
    and "i < length (elems data)" and "j < length (elems data)"
    and "elems data ! i = Fin x" and "elems data ! j = Fin y" and "x \<le> y"
    and "length (elems data) < 2 ^ 63"
  shows "\<exists>out u v. hist_eq_scaling data = Inr out \<and>
           elems out ! i = Fin u \<and> elems out ! j = Fin v \<and> u \<le> v \<and>
           sorted (lookup_curve (elems data)) \<and>
           u = interp_index (lookup_curve (elems data)) (max 0 x) \<and>
           v = interp_index (lookup_curve (elems data)) (max 0 y) \<and>
           (x \<le> 0 \<longrightarrow> u = hd (lookup_curve (elems data))) \<and>
           (255 \<le> y \<longrightarrow> v = last (lookup_curve (elems data)))"
proof -
  let ?gs = "lookup_curve (elems data)"
  let ?f = "interp1 (butlast (arange 257)) (map Fin ?gs)"
  let ?out = "map_elems ?f data"
  let ?u = "interp_index ?gs (max 0 x)" and ?v = "interp_index ?gs (max 0 y)"
  have l: "length ?gs = 256" by (rule length_lookup_curve)
  have ne: "?gs \<noteq> []" by (rule lookup_curve_ne)
  have ret: "hist_eq_scaling data = Inr ?out"
    by (rule hist_eq_scaling_in_bins [OF assms(1,7)])
  note sm = lookup_curve_small [OF assms(7)]
  have oi: "elems ?out ! i = Fin ?u"
    using assms(2) by (simp add: map_elems_def assms(4) interp1_Fin [OF l sm])
  have oj: "elems ?out ! j = Fin ?v"
    using assms(3) by (simp add: map_elems_def assms(5) interp1_Fin [OF l sm])
  have "max 0 x \<le> max 0 y" using assms(6) by simp
  then have le: "?u \<le> ?v"
    using lookup_curve_sorted ne by (intro interp_index_mono) simp_all
  have lo: "?u = hd ?gs" if "x \<le> 0"
  proof -
    from that have "max 0 x = 0" by simp
    then show ?thesis using ne by (simp add: interp_index_zero)
  qed
  have hi: "?v = last ?gs" if "255 \<le> y"
  proof -
    from that have "real (length ?gs) - 1 \<le> max 0 y" unfolding l by simp
    then show ?thesis by (rule interp_index_at_top)
  qed
  from ret oi oj le lookup_curve_sorted lo hi show ?thesis by blast
qed

lemma histogram_zero_one:
  "histogram [Fin 0, Fin 1] (arange 257) = 1 # 1 # replicate 254 0"
proof (rule histogram_eqI)
  show "length (1 # 1 # replicate 254 (0::nat)) = 256" by simp
next
  fix i :: nat assume i: "i < 256"
  have b0: "in_bin (arange 257) i (Fin 0) = (i = 0)"
    using i by (auto simp: in_bin_arange)
  have b1: "in_bin (arange 257) i (Fin 1) = (i = 1)"
    using i by (auto simp: in_bin_arange)
  have f: "filter (in_bin (arange 257) i) [Fin 0, Fin 1] =
      (if i = 0 then [Fin 0] else if i = 1 then [Fin 1] else [])"
    unfolding filter.simps b0 b1 by simp
  have "(1 # 1 # replicate 254 0) ! i = (if i = 0 then 1 else if i = 1 then 1 else (0::nat))"
    using i by (simp add: nth_Cons')
  then show "(1 # 1 # replicate 254 0) ! i = length (filter (in_bin (arange 257) i) [Fin 0, Fin 1])"
    unfolding f by simp
qed

lemma lookup_curve_zero_one: "lookup_curve [Fin 0, Fin 1] = 1 / 2 # replicate 255 1"
proof -
  have c: "cumsum (1 # 1 # replicate 254 0) = 1 # 2 # replicate 254 2"
    by (simp add: cumsum_def cumsum_from_replicate_zero)
  have m: "max_count (1 # 1 # replicate 254 0) = 1"
    by (simp add: max_count_Cons max_count_replicate)
  have s: "sum_list (1 # 1 # replicate 254 (0::nat)) = 2" by (simp add: sum_list_replicate)
  have "lookup_curve [Fin 0, Fin 1] = map (\<lambda>c. real c * 1 / 2) (1 # 2 # replicate 254 2)"
    unfolding lookup_curve_def histogram_zero_one Let_def c m s by simp
  also have "\<dots> = (1 / 2 :: real) # 1 # replicate 254 1" by simp
  also have "\<dots> = 1 / 2 # replicate (Suc 254) 1" by (simp only: replicate_Suc)
  finally show ?thesis by simp
qed

theorem hist_eq_scaling_monotone_witness:
  "hist_eq_scaling \<lparr>shape = [1, 2], elems = [Fin 0, Fin 1]\<rparr> =
     Inr \<lparr>shape = [1, 2], elems = [Fin (1 / 2), Fin 1]\<rparr> \<and> (1 / 2 :: real) \<le> 1"
proof -
  let ?d = "\<lparr>shape = [1, 2], elems = [Fin 0, Fin 1]\<rparr>"
  let ?gs = "lookup_curve [Fin 0, Fin 1]"
  have b: "\<exists>z \<in> set (elems ?d). in_bins z" using in_bins_zero by simp
  have h: "(0::nat) < length (elems ?d)" "(1::nat) < length (elems ?d)"
    "elems ?d ! 0 = Fin 0" "elems ?d ! 1 = Fin 1" "(0::real) \<le> 1"
    "length (elems ?d) < 2 ^ 63" by simp_all
  from hist_eq_scaling_monotone [OF b h] obtain out u v where
    o: "hist_eq_scaling ?d = Inr out" "elems out ! 0 = Fin u" "elems out ! 1 = Fin v" "u \<le> v"
       "u = interp_index (lookup_curve (elems ?d)) (max 0 0)"
       "v = interp_index (lookup_curve (elems ?d)) (max 0 1)" by blast
  have l: "length ?gs = 256" by (rule length_lookup_curve)
  have "interp_index ?gs (real (0::nat)) = ?gs ! 0" by (rule interp_index_at_nat) (simp add: l)
  then have u: "u = 1 / 2" using o(5) by (simp add: lookup_curve_zero_one)
  have "interp_index ?gs (real (1::nat)) = ?gs ! 1" by (rule interp_index_at_nat) (simp add: l)
  then have v: "v = 1" using o(6) by (simp add: lookup_curve_zero_one)
  have sm: "\<forall>g \<in> set ?gs. \<bar>g\<bar> \<le> 2 ^ 100"
    by (rule lookup_curve_small) simp
  have "hist_eq_scaling ?d = Inr (map_elems (interp1 (butlast (arange 257)) (map Fin ?gs)) ?d)"
    using hist_eq_scaling_in_bins [OF b h(6)] by simp
  moreover have "interp1 (butlast (arange 257)) (map Fin ?gs) (Fin (real (0::nat))) = Fin (?gs ! 0)"
    by (rule interp1_at_sample [OF l sm]) simp
  moreover have "interp1 (butlast (arange 257)) (map Fin ?gs) (Fin (real (1::nat))) = Fin (?gs ! 1)"
    by (rule interp1_at_sample [OF l sm]) simp
  ultimately have "hist_eq_scaling ?d = Inr \<lparr>shape = [1, 2], elems = [Fin (1 / 2), Fin 1]\<rparr>"
    by (simp add: map_elems_def lookup_curve_zero_one)
  moreover have "(1 / 2 :: real) \<le> 1" using o(4) u v by simp
  ultimately show ?thesis by simp
qed

end
